theory Spec2Isabelle
  imports Complex_Main
begin

section \<open>Panel Splitter: data model (types.ts)\<close>

text \<open>
  A JavaScript number is an IEEE 754 double. A finite double is taken as the real
  number it denotes, and the arithmetic of the grid planner (section "Double-precision
  arithmetic" below) rounds every result to the nearest double as the hardware does.
  Numbers that only ever hold whole values (row and column counts, loop counters, the
  running tile index) are integers; they stay far below \<open>2^53\<close>, where doubles
  count exactly. NaN, the infinities, overflow and the subnormal range are outside the
  model. Unit conversion, mark placement and the scale factors of the tiler are written
  with exact real operations: what is proved of them does not depend on rounding.
\<close>

datatype UnitMode = Auto | Px96 | Px72

datatype ExportMode = LaserSafe | FastClip

datatype NumberingFormat = R01C01 | Dash0101 | Tile001

datatype RegistrationMarkType = Crosshair | Pinhole | Lmark

datatype MarkPlacement = Inside | Overlap

record RegistrationMarkSettings =
  mark_enabled :: bool
  mark_type :: RegistrationMarkType
  placement :: MarkPlacement
  mark_size :: real
  strokeWidth :: real
  holeDiameter :: real

record AssemblyMapSettings =
  map_enabled :: bool
  includeLabels :: bool
  includeThumbnails :: bool

record Settings =
  bedWidth :: real
  bedHeight :: real
  margin :: real
  overlap :: real
  exportMode :: ExportMode
  numberingEnabled :: bool
  numberingFormat :: NumberingFormat
  startIndexAtOne :: bool
  guidesEnabled :: bool
  expandStrokes :: bool
  simplifyTolerance :: real
  exportEmptyTiles :: bool
  unitMode :: UnitMode
  registrationMarks :: RegistrationMarkSettings
  assemblyMap :: AssemblyMapSettings

record TileInfo =
  tile_row :: int
  tile_col :: int
  tile_id :: string
  tile_label :: string
  tile_x :: real
  tile_y :: real
  tile_width :: real
  tile_height :: real
  isEmpty :: bool
  hasUnsafeFallback :: bool
  svgContent :: "string option"

record GridInfo =
  rows :: int
  cols :: int
  tileWidth :: real
  tileHeight :: real
  effectiveTileWidth :: real
  effectiveTileHeight :: real
  tiles :: "TileInfo list"

datatype error = Error string

section \<open>Double-precision arithmetic\<close>

text \<open>
  Rounding to the nearest double, ties to even: \<open>expo x\<close> is the binary exponent of
  a positive \<open>x\<close> (\<open>2^e \<le> x < 2^(e+1)\<close>), \<open>ulp_at e\<close> the spacing \<open>2^(e-52)\<close> of
  the doubles with that exponent, \<open>rne\<close> rounds to the nearest integer with ties to
  the even one, and \<open>fl x\<close> is the double nearest to \<open>x\<close>. The operators \<open>-\<close>,
  \<open>*\<close> and \<open>/\<close> of the program are \<open>fsub\<close>, \<open>fmul\<close> and \<open>fdiv\<close>: the exact
  result, rounded. \<open>Math.ceil\<close>, \<open>Math.min\<close>, \<open>Math.max\<close> and the comparisons
  are exact on doubles.
\<close>

definition rne :: "real \<Rightarrow> int" where
  "rne y = (let f = \<lfloor>y\<rfloor>; d = y - of_int f
            in if d < 1 / 2 then f
               else if 1 / 2 < d then f + 1
               else if even f then f else f + 1)"

function expo_ge :: "real \<Rightarrow> int" where
  "expo_ge x = (if x < 2 then 0 else 1 + expo_ge (x / 2))"
  by pat_completeness auto
termination
proof (relation "measure (\<lambda>x. nat \<lfloor>x\<rfloor>)")
  show "wf (measure (\<lambda>x. nat \<lfloor>x\<rfloor>))" by simp
next
  fix x :: real assume "\<not> x < 2"
  then have x: "2 \<le> x" by simp
  then have "x / 2 \<le> x - 1" by simp
  then have "\<lfloor>x / 2\<rfloor> \<le> \<lfloor>x - 1\<rfloor>" by (rule floor_mono)
  also have "\<dots> = \<lfloor>x\<rfloor> - 1" by simp
  finally have "\<lfloor>x / 2\<rfloor> < \<lfloor>x\<rfloor>" by simp
  moreover have "0 < \<lfloor>x\<rfloor>" using x by simp
  ultimately show "(x / 2, x) \<in> measure (\<lambda>x. nat \<lfloor>x\<rfloor>)" by simp
qed

function expo_lt :: "real \<Rightarrow> int" where
  "expo_lt x = (if x \<le> 0 \<or> 1 \<le> x then 0 else expo_lt (2 * x) - 1)"
  by pat_completeness auto
termination
proof (relation "measure (\<lambda>x. nat \<lceil>1 / x\<rceil>)")
  show "wf (measure (\<lambda>x. nat \<lceil>1 / x\<rceil>))" by simp
next
  fix x :: real assume "\<not> (x \<le> 0 \<or> 1 \<le> x)"
  then have x: "0 < x" "x < 1" by simp_all
  then have y: "1 < 1 / x" by simp
  have "1 / (2 * x) + 1 / 2 \<le> 1 / x"
  proof -
    have "1 / (2 * x) + 1 / 2 = (1 / x + 1) / 2" by (simp add: field_simps)
    also have "\<dots> \<le> (1 / x + 1 / x) / 2" using y by simp
    also have "\<dots> = 1 / x" by simp
    finally show ?thesis .
  qed
  then have h: "1 / (2 * x) \<le> 1 / x - 1 / 2" by simp
  have c1: "1 < \<lceil>1 / x\<rceil>"
  proof -
    have "of_int 1 < 1 / x" using y by simp
    then show ?thesis by (simp only: less_ceiling_iff)
  qed
  have "\<lceil>1 / (2 * x)\<rceil> < \<lceil>1 / x\<rceil>"
  proof (cases "1 / x \<le> 2")
    case True
    then have "1 / (2 * x) \<le> of_int 1" using x by (simp add: field_simps)
    then have "\<lceil>1 / (2 * x)\<rceil> \<le> 1" by (simp only: ceiling_le_iff)
    with c1 show ?thesis by linarith
  next
    case False
    then have "1 / (2 * x) \<le> 1 / x - 1" using x by (simp add: field_simps)
    then have "\<lceil>1 / (2 * x)\<rceil> \<le> \<lceil>1 / x - 1\<rceil>" by (rule ceiling_mono)
    also have "\<dots> = \<lceil>1 / x\<rceil> - 1" by simp
    finally show ?thesis by linarith
  qed
  with c1 x show "(2 * x, x) \<in> measure (\<lambda>x. nat \<lceil>1 / x\<rceil>)" by simp
qed

definition expo :: "real \<Rightarrow> int" where
  "expo x = (if 1 \<le> x then expo_ge x else expo_lt x)"

definition ulp_at :: "int \<Rightarrow> real" where
  "ulp_at e = (if 52 \<le> e then 2 ^ nat (e - 52) else 1 / 2 ^ nat (52 - e))"

definition fl :: "real \<Rightarrow> real" where
  "fl x = (if x = 0 then 0
           else let u = ulp_at (expo \<bar>x\<bar>) in of_int (rne (x / u)) * u)"

definition fsub :: "real \<Rightarrow> real \<Rightarrow> real" where "fsub a b = fl (a - b)"
definition fmul :: "real \<Rightarrow> real \<Rightarrow> real" where "fmul a b = fl (a * b)"
definition fdiv :: "real \<Rightarrow> real \<Rightarrow> real" where "fdiv a b = fl (a / b)"

section \<open>Tile labels (grid.ts, formatTileLabel)\<close>

text \<open>
  \<open>String(n)\<close> for a whole number: its decimal digits, with a minus sign in front of
  a negative one.
\<close>

definition digit_char :: "nat \<Rightarrow> char" where
  "digit_char d = char_of (48 + d)"

fun digits :: "nat \<Rightarrow> string" where
  "digits n = (if n < 10 then [digit_char n] else digits (n div 10) @ [digit_char (n mod 10)])"

definition String_of :: "int \<Rightarrow> string" where
  "String_of n = (if n < 0 then CHR ''-'' # digits (nat (- n)) else digits (nat n))"

definition padStart :: "nat \<Rightarrow> char \<Rightarrow> string \<Rightarrow> string" where
  "padStart n c s = replicate (n - length s) c @ s"

definition formatTileLabel :: "int \<Rightarrow> int \<Rightarrow> NumberingFormat \<Rightarrow> int \<Rightarrow> bool \<Rightarrow> string" where
  "formatTileLabel row col format index startAtOne =
     (let offset = (if startAtOne then 1 else 0);
          r = padStart 2 (CHR ''0'') (String_of (row + offset));
          c = padStart 2 (CHR ''0'') (String_of (col + offset));
          i = padStart 3 (CHR ''0'') (String_of (index + offset))
      in case format of
           R01C01 \<Rightarrow> ''R'' @ r @ ''C'' @ c
         | Dash0101 \<Rightarrow> r @ ''-'' @ c
         | Tile001 \<Rightarrow> ''Tile_'' @ i)"

section \<open>Grid planning (grid.ts, computeGrid)\<close>

text \<open>The body of the inner loop: the tile pushed for one cell.\<close>

definition cell_tile :: "real \<Rightarrow> real \<Rightarrow> Settings \<Rightarrow> int \<Rightarrow> int \<Rightarrow> int \<Rightarrow> TileInfo" where
  "cell_tile designWidthMm designHeightMm settings row col index =
     (let effW = fsub (bedWidth settings) (fmul 2 (margin settings));
          effH = fsub (bedHeight settings) (fmul 2 (margin settings));
          stepX = fsub effW (overlap settings);
          stepY = fsub effH (overlap settings);
          x = fmul (of_int col) stepX;
          y = fmul (of_int row) stepY
      in \<lparr> tile_row = row,
           tile_col = col,
           tile_id = ''tile-'' @ String_of row @ ''-'' @ String_of col,
           tile_label = formatTileLabel row col (numberingFormat settings) index
                          (startIndexAtOne settings),
           tile_x = x,
           tile_y = y,
           tile_width = min effW (fsub designWidthMm x),
           tile_height = min effH (fsub designHeightMm y),
           isEmpty = False,
           hasUnsafeFallback = False,
           svgContent = None \<rparr>)"

text \<open>
  \<open>for (let col = 0; col < cols; col++) { tiles.push(...); index++ }\<close>: the state is
  the tile array and the running index.
\<close>

function col_loop ::
  "real \<Rightarrow> real \<Rightarrow> Settings \<Rightarrow> int \<Rightarrow> int \<Rightarrow> int \<Rightarrow> TileInfo list \<times> int \<Rightarrow> TileInfo list \<times> int" where
  "col_loop dw dh settings ncols row col (ts, index) =
     (if col < ncols
      then col_loop dw dh settings ncols row (col + 1)
             (ts @ [cell_tile dw dh settings row col index], index + 1)
      else (ts, index))"
  by pat_completeness auto
termination
  by (relation "measure (\<lambda>(dw, dh, settings, ncols, row, col, st). nat (ncols - col))") auto

function row_loop ::
  "real \<Rightarrow> real \<Rightarrow> Settings \<Rightarrow> int \<Rightarrow> int \<Rightarrow> int \<Rightarrow> TileInfo list \<times> int \<Rightarrow> TileInfo list \<times> int" where
  "row_loop dw dh settings nrows ncols row st =
     (if row < nrows
      then row_loop dw dh settings nrows ncols (row + 1)
             (col_loop dw dh settings ncols row 0 st)
      else st)"
  by pat_completeness auto
termination
  by (relation "measure (\<lambda>(dw, dh, settings, nrows, ncols, row, st). nat (nrows - row))") auto

definition computeGrid :: "real \<Rightarrow> real \<Rightarrow> Settings \<Rightarrow> error + GridInfo" where
  "computeGrid designWidthMm designHeightMm settings =
     (let effW = fsub (bedWidth settings) (fmul 2 (margin settings));
          effH = fsub (bedHeight settings) (fmul 2 (margin settings))
      in if effW \<le> 0 \<or> effH \<le> 0
         then Inl (Error ''Effective tile size is zero or negative. Reduce margin or increase bed size.'')
         else
           let stepX = fsub effW (overlap settings);
               stepY = fsub effH (overlap settings)
           in if stepX \<le> 0 \<or> stepY \<le> 0
              then Inl (Error ''Overlap is too large for the effective tile size.'')
              else
                let ncols = max 1 \<lceil>fdiv (fsub designWidthMm (overlap settings)) stepX\<rceil>;
                    nrows = max 1 \<lceil>fdiv (fsub designHeightMm (overlap settings)) stepY\<rceil>
                in Inr \<lparr> rows = nrows,
                         cols = ncols,
                         tileWidth = bedWidth settings,
                         tileHeight = bedHeight settings,
                         effectiveTileWidth = effW,
                         effectiveTileHeight = effH,
                         tiles = fst (row_loop designWidthMm designHeightMm settings
                                        nrows ncols 0 ([], 0)) \<rparr>)"

section \<open>Unit conversion (parser.ts, convertToMm)\<close>

text \<open>
  The table \<open>UNIT_TO_MM\<close>. A unit that is no key of the table takes the factor of
  \<open>px\<close> (\<open>UNIT_TO_MM[unit.toLowerCase()] ?? UNIT_TO_MM.px\<close>). The table is read by
  its own keys only: for the two lower-case names that every JavaScript object inherits
  (\<open>constructor\<close>, \<open>__proto__\<close>) the code multiplies by a non-number and returns
  NaN in every mode, which is outside the model. \<open>toLowerCase\<close> maps the letters A to
  Z and leaves every other character as it is.
\<close>

definition UNIT_TO_MM :: "string \<rightharpoonup> real" where
  "UNIT_TO_MM =
     [''mm'' \<mapsto> 1, ''cm'' \<mapsto> 10, ''in'' \<mapsto> 25.4, ''pt'' \<mapsto> 25.4 / 72,
      ''pc'' \<mapsto> 25.4 / 6, ''px'' \<mapsto> 25.4 / 96]"

definition toLowerCase :: "string \<Rightarrow> string" where
  "toLowerCase s =
     map (\<lambda>c. if 65 \<le> (of_char c :: nat) \<and> (of_char c :: nat) \<le> 90
              then char_of ((of_char c :: nat) + 32) else c) s"

definition convertToMm :: "real \<Rightarrow> string \<Rightarrow> UnitMode \<Rightarrow> real" where
  "convertToMm v unit mode =
     (if mode = Px96 \<and> unit = ''px'' then v * (25.4 / 96)
      else if mode = Px72 \<and> unit = ''px'' then v * (25.4 / 72)
      else let factor = (case UNIT_TO_MM (toLowerCase unit) of
                           Some f \<Rightarrow> f
                         | None \<Rightarrow> 25.4 / 96)
           in v * factor)"

section \<open>Registration marks (marks.ts, generateMarkPositions)\<close>



section \<open>Tile clipping (tiler.ts)\<close>

text \<open>
  The scene graph of paper.js, as far as the tiler looks at it: paths with their
  segments, compound paths, groups and layers with their children, and any other item.
  Paint attributes are not part of an item here, so \<open>copyStyles\<close> and \<open>clone\<close> leave
  an item as it is.
\<close>

datatype item =
    Path "(real \<times> real) list"
  | CompoundPath "item list"
  | Group "item list"
  | Layer "item list"
  | Shape

record Rectangle =
  rect_x :: real
  rect_y :: real
  rect_width :: real
  rect_height :: real

record ViewBox =
  vb_x :: real
  vb_y :: real
  vb_width :: real
  vb_height :: real

record SVGInfo =
  fileName :: string
  originalContent :: string
  viewBox :: "ViewBox option"
  svg_width :: "real option"
  svg_height :: "real option"
  widthUnit :: string
  heightUnit :: string
  detectedWidthMm :: real
  detectedHeightMm :: real

text \<open>
  What one tile's document is made of when it is exported: the items the tiler put in
  the project, the clip mask of the fast mode, the translation into the tile's frame,
  the simplification tolerance and whether guides were added.
\<close>

record TileDoc =
  retained :: "item list"
  clipMask :: "Rectangle option"
  translation :: "real \<times> real"
  simplified :: "real option"
  guides :: bool

text \<open>
  The operations of paper.js and of the DOM that the tiler calls; their code is not part
  of the repository, so they are parameters. \<open>importSVG\<close> yields no item for a document
  it cannot import; \<open>intersect\<close> is the boolean operator, which may throw and may return
  nothing; \<open>bounds_intersects p r\<close> is \<open>p.bounds.intersects(r)\<close>; \<open>strokes_expanded\<close> is
  the imported tree after \<open>expandAllStrokes\<close>, whose outcome depends on paint attributes
  and on paper's \<open>unite\<close>; \<open>exportTileSVG\<close> serialises the project.
\<close>

record paper =
  importSVG :: "string \<Rightarrow> item option"
  bounds_intersects :: "item \<Rightarrow> Rectangle \<Rightarrow> bool"
  intersect :: "item \<Rightarrow> Rectangle \<Rightarrow> error + item option"
  strokes_expanded :: "item \<Rightarrow> item"
  exportTileSVG :: "TileDoc \<Rightarrow> GridInfo \<Rightarrow> Settings \<Rightarrow> int \<Rightarrow> int \<Rightarrow> string"

record TileResult =
  result_tile :: TileInfo
  result_svgContent :: string
  result_doc :: TileDoc

fun getAllPaths :: "item \<Rightarrow> item list" where
  "getAllPaths (Path segs) = [Path segs]"
| "getAllPaths (CompoundPath cs) = [CompoundPath cs]"
| "getAllPaths (Group cs) = concat (map getAllPaths cs)"
| "getAllPaths (Layer cs) = concat (map getAllPaths cs)"
| "getAllPaths Shape = []"

fun isEmptyPath :: "item \<Rightarrow> bool" where
  "isEmptyPath (Path segs) = (length segs = 0)"
| "isEmptyPath (CompoundPath cs) = (length cs = 0 \<or> (\<forall>c \<in> set cs. isEmptyPath c))"
| "isEmptyPath (Group cs) = False"
| "isEmptyPath (Layer cs) = False"
| "isEmptyPath Shape = False"

text \<open>The loop of \<open>intersectPath\<close> over the children of a compound path.\<close>

fun intersect_children :: "paper \<Rightarrow> Rectangle \<Rightarrow> item list \<Rightarrow> item list \<Rightarrow> error + item list" where
  "intersect_children lib clipRect [] results = Inr results"
| "intersect_children lib clipRect (child # cs) results =
     (case intersect lib child clipRect of
        Inl e \<Rightarrow> Inl e
      | Inr None \<Rightarrow> intersect_children lib clipRect cs results
      | Inr (Some intersected) \<Rightarrow>
          if \<not> isEmptyPath intersected
          then intersect_children lib clipRect cs (results @ [intersected])
          else intersect_children lib clipRect cs results)"

definition intersectPath :: "paper \<Rightarrow> item \<Rightarrow> Rectangle \<Rightarrow> error + item option" where
  "intersectPath lib path clipRect =
     (case path of
        CompoundPath cs \<Rightarrow>
          (case intersect_children lib clipRect cs [] of
             Inl e \<Rightarrow> Inl e
           | Inr results \<Rightarrow>
               if length results = 0 then Inr None
               else if length results = 1 then Inr (Some (hd results))
               else Inr (Some (CompoundPath results)))
      | _ \<Rightarrow> intersect lib path clipRect)"

text \<open>
  One round of the loop over \<open>allPaths\<close> under the laser-safe mode. The state is
  \<open>(trimmedItems, hasContent, hasUnsafeFallback)\<close> (the last written
  \<open>unsafeFallback\<close> here, the tile's field keeping the name); the \<open>Inl\<close> branch is the
  \<open>catch\<close> block.
\<close>

definition trim_step :: "paper \<Rightarrow> Rectangle \<Rightarrow> item \<Rightarrow> item list \<times> bool \<times> bool \<Rightarrow> item list \<times> bool \<times> bool" where
  "trim_step lib tileRectInSvg path st =
     (case st of (trimmedItems, hasContent, unsafeFallback) \<Rightarrow>
        if \<not> bounds_intersects lib path tileRectInSvg then st
        else
          (case intersectPath lib path tileRectInSvg of
             Inr None \<Rightarrow> st
           | Inr (Some intersected) \<Rightarrow>
               if \<not> isEmptyPath intersected
               then (trimmedItems @ [intersected], True, unsafeFallback)
               else st
           | Inl e \<Rightarrow>
               if bounds_intersects lib path tileRectInSvg
               then (trimmedItems @ [path], True, True)
               else st))"

fun trim_loop :: "paper \<Rightarrow> Rectangle \<Rightarrow> item list \<Rightarrow> item list \<times> bool \<times> bool \<Rightarrow> item list \<times> bool \<times> bool" where
  "trim_loop lib tileRectInSvg [] st = st"
| "trim_loop lib tileRectInSvg (path # paths) st =
     trim_loop lib tileRectInSvg paths (trim_step lib tileRectInSvg path st)"

text \<open>
  The scale factors and the crop window. A zero extent, for which JavaScript divides by
  zero, is outside the model.
\<close>

definition designScaleX :: "SVGInfo \<Rightarrow> real" where
  "designScaleX svgInfo =
     detectedWidthMm svgInfo /
       (case viewBox svgInfo of
          Some vb \<Rightarrow> vb_width vb
        | None \<Rightarrow> (case svg_width svgInfo of Some w \<Rightarrow> w | None \<Rightarrow> detectedWidthMm svgInfo))"

definition designScaleY :: "SVGInfo \<Rightarrow> real" where
  "designScaleY svgInfo =
     detectedHeightMm svgInfo /
       (case viewBox svgInfo of
          Some vb \<Rightarrow> vb_height vb
        | None \<Rightarrow> (case svg_height svgInfo of Some h \<Rightarrow> h | None \<Rightarrow> detectedHeightMm svgInfo))"

definition tileRectInSvg :: "SVGInfo \<Rightarrow> TileInfo \<Rightarrow> GridInfo \<Rightarrow> Rectangle" where
  "tileRectInSvg svgInfo tile gridInfo =
     \<lparr> rect_x = tile_x tile / designScaleX svgInfo +
                  (case viewBox svgInfo of Some vb \<Rightarrow> vb_x vb | None \<Rightarrow> 0),
       rect_y = tile_y tile / designScaleY svgInfo +
                  (case viewBox svgInfo of Some vb \<Rightarrow> vb_y vb | None \<Rightarrow> 0),
       rect_width = effectiveTileWidth gridInfo / designScaleX svgInfo,
       rect_height = effectiveTileHeight gridInfo / designScaleY svgInfo \<rparr>"

text \<open>
  The end of \<open>processSingleTile\<close>, shared by both modes: the flags are written to the
  tile, an empty tile is dropped unless empty tiles are exported, and the document is
  serialised.
\<close>

definition finish_tile ::
  "paper \<Rightarrow> TileInfo \<Rightarrow> GridInfo \<Rightarrow> Settings \<Rightarrow> bool \<Rightarrow> bool \<Rightarrow> TileDoc \<Rightarrow> TileInfo \<times> TileResult option" where
  "finish_tile lib tile gridInfo settings hasContent unsafeFallback doc =
     (let tile' = tile\<lparr> isEmpty := \<not> hasContent, hasUnsafeFallback := unsafeFallback \<rparr>
      in if \<not> hasContent \<and> \<not> exportEmptyTiles settings then (tile', None)
         else
           let svg = exportTileSVG lib doc gridInfo settings (tile_row tile') (tile_col tile')
           in (tile', Some \<lparr> result_tile = tile'\<lparr> svgContent := Some svg \<rparr>,
                             result_svgContent = svg,
                             result_doc = doc \<rparr>))"

text \<open>
  \<open>processSingleTile\<close> writes the flags into the tile object it is given; the model
  returns the tile as it is left, together with the result (\<open>None\<close> for \<open>null\<close>).
\<close>

definition processSingleTile ::
  "paper \<Rightarrow> SVGInfo \<Rightarrow> TileInfo \<Rightarrow> GridInfo \<Rightarrow> Settings \<Rightarrow> TileInfo \<times> TileResult option" where
  "processSingleTile lib svgInfo tile gridInfo settings =
     (let rect = tileRectInSvg svgInfo tile gridInfo;
          shift = (- rect_x rect + margin settings / designScaleX svgInfo,
                   - rect_y rect + margin settings / designScaleY svgInfo)
      in case importSVG lib (originalContent svgInfo) of
           None \<Rightarrow> (tile\<lparr> isEmpty := True \<rparr>, None)
         | Some imported \<Rightarrow>
             let importedItem =
                   (if expandStrokes settings then strokes_expanded lib imported else imported)
             in if exportMode settings = LaserSafe
                then
                  (case trim_loop lib rect (getAllPaths importedItem) ([], False, False) of
                     (trimmedItems, hasContent, unsafeFallback) \<Rightarrow>
                       if \<not> hasContent \<and> \<not> exportEmptyTiles settings
                       then (tile\<lparr> isEmpty := True \<rparr>, None)
                       else finish_tile lib tile gridInfo settings hasContent unsafeFallback
                              \<lparr> retained = trimmedItems,
                                clipMask = None,
                                translation = shift,
                                simplified =
                                  (if simplifyTolerance settings > 0
                                   then Some (simplifyTolerance settings / designScaleX svgInfo)
                                   else None),
                                guides = guidesEnabled settings \<rparr>)
                else
                  finish_tile lib tile gridInfo settings True False
                    \<lparr> retained = [importedItem],
                      clipMask = Some rect,
                      translation = shift,
                      simplified = None,
                      guides = guidesEnabled settings \<rparr>)"

text \<open>
  The batch loop of \<open>processTiles\<close>. \<open>shouldCancel i\<close> is what the cancellation
  predicate answers when it is polled before tile \<open>i\<close> (counted from 0). The tiles are
  updated in place, so the loop returns them next to its outcome; the outcome is the
  thrown error or the results. The progress callback and the yield to the host after
  every other tile change neither the tiles nor the results and are left out.
\<close>

function process_loop ::
  "paper \<Rightarrow> SVGInfo \<Rightarrow> GridInfo \<Rightarrow> Settings \<Rightarrow> (nat \<Rightarrow> bool) \<Rightarrow> nat \<Rightarrow> nat \<Rightarrow>
   TileInfo list \<Rightarrow> TileResult list \<Rightarrow> TileInfo list \<times> (error + TileResult list)" where
  "process_loop lib svgInfo gridInfo settings shouldCancel totalCount i ts results =
     (if i < totalCount
      then if shouldCancel i then (ts, Inl (Error ''Processing cancelled''))
           else
             (case processSingleTile lib svgInfo (ts ! i) gridInfo settings of
                (tile', result) \<Rightarrow>
                  process_loop lib svgInfo gridInfo settings shouldCancel totalCount (i + 1)
                    (ts[i := tile'])
                    (case result of Some r \<Rightarrow> results @ [r] | None \<Rightarrow> results))
      else (ts, Inr results))"
  by pat_completeness auto
termination
  by (relation "measure (\<lambda>(lib, svgInfo, gridInfo, settings, shouldCancel, totalCount, i, ts, results). totalCount - i)")
     auto

definition processTiles ::
  "paper \<Rightarrow> SVGInfo \<Rightarrow> GridInfo \<Rightarrow> Settings \<Rightarrow> (nat \<Rightarrow> bool) \<Rightarrow>
   TileInfo list \<times> (error + TileResult list)" where
  "processTiles lib svgInfo gridInfo settings shouldCancel =
     process_loop lib svgInfo gridInfo settings shouldCancel (length (tiles gridInfo)) 0
       (tiles gridInfo) []"

section \<open>The generate action (App.tsx, handleGenerate and handleCancel)\<close>

datatype Phase = Idle | Preparing | Tiling | Exporting | Done | Cancelled

record ProcessingState =
  isProcessing :: bool
  currentTile :: nat
  totalTiles :: nat
  phase :: Phase
  state_error :: "string option"

record AppState =
  app_svgInfo :: "SVGInfo option"
  app_settings :: Settings
  app_gridInfo :: "GridInfo option"
  processedTiles :: "TileInfo list"
  validationErrors :: "(string \<times> string) list"
  processingState :: ProcessingState

definition handleCancel :: "AppState \<Rightarrow> AppState" where
  "handleCancel app = app\<lparr> processingState := (processingState app)\<lparr> phase := Cancelled \<rparr> \<rparr>"

text \<open>
  \<open>handleGenerate\<close> from its first line to its last state update. While
  \<open>processTiles\<close> runs, the progress callback and \<open>handleCancel\<close> change fields of
  \<open>processingState\<close> only, and both ways out of the \<open>try\<close> block replace
  \<open>processingState\<close> as a whole, so the state the action ends in is the one computed
  here. The grid keeps the tiles as \<open>processTiles\<close> left them.
\<close>

definition handleGenerate :: "paper \<Rightarrow> (nat \<Rightarrow> bool) \<Rightarrow> AppState \<Rightarrow> AppState" where
  "handleGenerate lib shouldCancel app =
     (case (app_svgInfo app, app_gridInfo app) of
        (Some svgInfo, Some gridInfo) \<Rightarrow>
          if length (validationErrors app) > 0 then app
          else
            (case processTiles lib svgInfo gridInfo (app_settings app) shouldCancel of
               (ts, Inr results) \<Rightarrow>
                 let updatedTiles =
                       map (\<lambda>tile.
                              case find (\<lambda>r. tile_id (result_tile r) = tile_id tile) results of
                                Some result \<Rightarrow> result_tile result
                              | None \<Rightarrow> tile\<lparr> isEmpty := True \<rparr>) ts
                 in app\<lparr> processedTiles := updatedTiles,
                         app_gridInfo := Some (gridInfo\<lparr> tiles := updatedTiles \<rparr>),
                         processingState :=
                           \<lparr> isProcessing = False,
                             currentTile = length (tiles gridInfo),
                             totalTiles = length (tiles gridInfo),
                             phase = Done,
                             state_error = None \<rparr> \<rparr>
             | (ts, Inl (Error message)) \<Rightarrow>
                 app\<lparr> app_gridInfo := Some (gridInfo\<lparr> tiles := ts \<rparr>),
                       processingState :=
                         \<lparr> isProcessing = False,
                           currentTile = 0,
                           totalTiles = 0,
                           phase = Idle,
                           state_error =
                             (if message = ''Processing cancelled'' then None
                              else Some message) \<rparr> \<rparr>)
      | _ \<Rightarrow> app)"

text \<open>The default settings of the application (App.tsx, DEFAULT_SETTINGS).\<close>

definition DEFAULT_SETTINGS :: Settings where
  "DEFAULT_SETTINGS =
     \<lparr> bedWidth = 300, bedHeight = 200, margin = 5, overlap = 0,
       exportMode = LaserSafe, numberingEnabled = True, numberingFormat = R01C01,
       startIndexAtOne = True, guidesEnabled = False, expandStrokes = False,
       simplifyTolerance = 0, exportEmptyTiles = False, unitMode = Auto,
       registrationMarks =
         \<lparr> mark_enabled = False, mark_type = Crosshair, placement = Inside,
           mark_size = 6, strokeWidth = 0.2, holeDiameter = 2 \<rparr>,
       assemblyMap =
         \<lparr> map_enabled = True, includeLabels = True, includeThumbnails = False \<rparr> \<rparr>"

section \<open>Vocabulary of the grid properties\<close>

text \<open>
  The quantities \<open>computeGrid\<close> binds locally, as functions of the settings, so that
  the properties can name them.
\<close>

definition eff_w :: "Settings \<Rightarrow> real" where
  "eff_w settings = fsub (bedWidth settings) (fmul 2 (margin settings))"

definition eff_h :: "Settings \<Rightarrow> real" where
  "eff_h settings = fsub (bedHeight settings) (fmul 2 (margin settings))"

definition step_x :: "Settings \<Rightarrow> real" where
  "step_x settings = fsub (eff_w settings) (overlap settings)"

definition step_y :: "Settings \<Rightarrow> real" where
  "step_y settings = fsub (eff_h settings) (overlap settings)"

text \<open>The column and row counts, as \<open>computeGrid\<close> computes them.\<close>

definition grid_cols :: "real \<Rightarrow> Settings \<Rightarrow> int" where
  "grid_cols dw settings = max 1 \<lceil>fdiv (fsub dw (overlap settings)) (step_x settings)\<rceil>"

definition grid_rows :: "real \<Rightarrow> Settings \<Rightarrow> int" where
  "grid_rows dh settings = max 1 \<lceil>fdiv (fsub dh (overlap settings)) (step_y settings)\<rceil>"

text \<open>The two guards of \<open>computeGrid\<close> both pass.\<close>

definition grid_accepts :: "Settings \<Rightarrow> bool" where
  "grid_accepts settings \<longleftrightarrow>
     0 < eff_w settings \<and> 0 < eff_h settings \<and> 0 < step_x settings \<and> 0 < step_y settings"

text \<open>
  A length that is a whole number of millimetres of at most \<open>2^50\<close>: on such inputs
  no operation of the grid planner rounds.
\<close>

definition whole_mm :: "real \<Rightarrow> bool" where
  "whole_mm x \<longleftrightarrow> of_int \<lfloor>x\<rfloor> = x \<and> \<bar>x\<bar> \<le> 2 ^ 50"

text \<open>The tile at position \<open>k\<close> of the tile array, in row-major scan order.\<close>

definition flat_tile :: "real \<Rightarrow> real \<Rightarrow> Settings \<Rightarrow> int \<Rightarrow> nat \<Rightarrow> TileInfo" where
  "flat_tile dw dh settings ncols k =
     cell_tile dw dh settings (int k div ncols) (int k mod ncols) (int k)"

text \<open>
  Reading a string of decimal digits back as a number, one character at a time; used
  to show that padded decimal strings determine the number they were made from.
\<close>

definition digit_val :: "nat \<Rightarrow> char \<Rightarrow> nat" where
  "digit_val a c = 10 * a + (of_char c - 48)"


section \<open>Sample inputs\<close>

text \<open>
  Concrete inputs on which the properties below are run: a design holding one diagonal
  stroke, a 600 by 100 design on the default bed (one row of three tiles), and three
  stand-ins for paper.js that differ in what the boolean operator does: it throws, it
  returns a path without segments, and it returns its operand.
\<close>

definition one_path :: item where
  "one_path = Path [(0, 0), (10, 10)]"

definition paper_throwing :: paper where
  "paper_throwing =
     \<lparr> importSVG = (\<lambda>content. Some (Group [one_path])),
       bounds_intersects = (\<lambda>p r. True),
       intersect = (\<lambda>p r. Inl (Error ''boolean operation failed'')),
       strokes_expanded = (\<lambda>it. it),
       exportTileSVG = (\<lambda>doc g s r c. ''svg'') \<rparr>"

definition paper_empty :: paper where
  "paper_empty =
     \<lparr> importSVG = (\<lambda>content. Some (Group [one_path])),
       bounds_intersects = (\<lambda>p r. True),
       intersect = (\<lambda>p r. Inr (Some (Path []))),
       strokes_expanded = (\<lambda>it. it),
       exportTileSVG = (\<lambda>doc g s r c. ''svg'') \<rparr>"

definition paper_exact :: paper where
  "paper_exact =
     \<lparr> importSVG = (\<lambda>content. Some (Group [one_path])),
       bounds_intersects = (\<lambda>p r. True),
       intersect = (\<lambda>p r. Inr (Some p)),
       strokes_expanded = (\<lambda>it. it),
       exportTileSVG = (\<lambda>doc g s r c. ''svg'') \<rparr>"

definition sample_svg :: SVGInfo where
  "sample_svg =
     \<lparr> fileName = ''design.svg'', originalContent = ''svg'',
       viewBox = Some \<lparr> vb_x = 0, vb_y = 0, vb_width = 600, vb_height = 100 \<rparr>,
       svg_width = None, svg_height = None, widthUnit = ''px'', heightUnit = ''px'',
       detectedWidthMm = 600, detectedHeightMm = 100 \<rparr>"

definition sample_grid :: GridInfo where
  "sample_grid =
     \<lparr> rows = 1, cols = 3, tileWidth = 300, tileHeight = 200,
       effectiveTileWidth = 290, effectiveTileHeight = 190,
       tiles = [cell_tile 600 100 DEFAULT_SETTINGS 0 0 0,
                cell_tile 600 100 DEFAULT_SETTINGS 0 1 1,
                cell_tile 600 100 DEFAULT_SETTINGS 0 2 2] \<rparr>"

definition sample_app :: AppState where
  "sample_app =
     \<lparr> app_svgInfo = Some sample_svg,
       app_settings = DEFAULT_SETTINGS,
       app_gridInfo = Some sample_grid,
       processedTiles = [],
       validationErrors = [],
       processingState =
         \<lparr> isProcessing = False, currentTile = 0, totalTiles = 0, phase = Idle,
           state_error = None \<rparr> \<rparr>"




text \<open>The cancellation predicate that is false at the first poll and true from the second.\<close>

definition cancel_after_first :: "nat \<Rightarrow> bool" where
  "cancel_after_first i \<longleftrightarrow> 1 \<le> i"

declare expo_ge.simps [simp del]
declare expo_lt.simps [simp del]
declare digits.simps [simp del]
declare col_loop.simps [simp del]
declare row_loop.simps [simp del]
declare process_loop.simps [simp del]

section \<open>Rounding to the nearest double\<close>



lemma expo_ge_bounds:
  "1 \<le> x \<Longrightarrow> 0 \<le> expo_ge x \<and> 2 powi (expo_ge x) \<le> x \<and> x < 2 powi (expo_ge x + 1)"
proof (induction x rule: expo_ge.induct)
  case (1 x)
  show ?case
  proof (cases "x < 2")
    case True
    then have "expo_ge x = 0" by (subst expo_ge.simps) simp
    with True 1(2) show ?thesis by simp
  next
    case False
    then have e: "expo_ge x = 1 + expo_ge (x / 2)" by (subst expo_ge.simps) simp
    from False have "1 \<le> x / 2" by simp
    from 1(1)[OF False this] have ih: "0 \<le> expo_ge (x / 2)"
      "2 powi (expo_ge (x / 2)) \<le> x / 2" "x / 2 < 2 powi (expo_ge (x / 2) + 1)"
      by simp_all
    have p: "(2::real) powi (1 + k) = 2 * 2 powi k"
      "(2::real) powi (1 + k + 1) = 4 * 2 powi k" for k :: int
      by (simp_all add: power_int_add)
    have "0 \<le> 1 + expo_ge (x / 2)" using ih(1) by simp
    moreover have "2 powi (1 + expo_ge (x / 2)) \<le> x" unfolding p using ih(2) by simp
    moreover have "x < 2 powi (1 + expo_ge (x / 2) + 1)"
    proof -
      have "(2::real) powi (expo_ge (x / 2) + 1) = 2 * 2 powi (expo_ge (x / 2))"
        by (simp add: power_int_add)
      with ih(3) have "x / 2 < 2 * 2 powi (expo_ge (x / 2))" by simp
      then show ?thesis unfolding p by simp
    qed
    ultimately show ?thesis unfolding e by blast
  qed
qed

lemma expo_lt_bounds:
  "0 < x \<Longrightarrow> x < 1 \<Longrightarrow> 2 powi (expo_lt x) \<le> x \<and> x < 2 powi (expo_lt x + 1)"
proof (induction x rule: expo_lt.induct)
  case (1 x)
  have e: "expo_lt x = expo_lt (2 * x) - 1"
    using 1(2,3) by (subst expo_lt.simps) simp
  have p: "(2::real) powi (k - 1) = 2 powi k / 2" for k :: int
    by (simp add: power_int_diff)
  show ?case
  proof (cases "2 * x < 1")
    case True
    have "\<not> (x \<le> 0 \<or> 1 \<le> x)" using 1(2,3) by simp
    from 1(1)[OF this _ True] 1(2)
    have "2 powi (expo_lt (2 * x)) \<le> 2 * x" "2 * x < 2 powi (expo_lt (2 * x) + 1)"
      by simp_all
    then show ?thesis unfolding e by (simp add: p power_int_add)
  next
    case False
    then have "expo_lt (2 * x) = 0" by (subst expo_lt.simps) simp
    with False 1(3) show ?thesis unfolding e by simp
  qed
qed

lemma expo_bounds:
  assumes "0 < x"
  shows "2 powi (expo x) \<le> x" "x < 2 powi (expo x + 1)"
  using assms expo_ge_bounds[of x] expo_lt_bounds[of x]
  by (auto simp: expo_def not_le)

lemma rne_of_int: "rne (of_int k) = k"
  by (simp add: rne_def)


lemma fl_0: "fl 0 = 0"
  by (simp add: fl_def)



lemma fl_of_int:
  assumes "\<bar>n\<bar> < 2 ^ 53"
  shows "fl (of_int n) = of_int n"
proof (cases "n = 0")
  case True
  then show ?thesis by (simp add: fl_0)
next
  case False
  let ?x = "of_int n :: real"
  let ?e = "expo \<bar>?x\<bar>"
  have a: "0 < \<bar>?x\<bar>" using False by simp
  have "2 powi ?e \<le> \<bar>?x\<bar>" by (rule expo_bounds(1)[OF a])
  also have "\<bar>?x\<bar> < 2 ^ 53"
  proof -
    have "\<bar>?x\<bar> = of_int \<bar>n\<bar>" by simp
    also have "\<dots> < of_int (2 ^ 53)" using assms by (simp only: of_int_less_iff)
    finally show ?thesis by simp
  qed
  finally have "(2::real) powi ?e < 2 powi 53" by simp
  then have e: "?e < 53" by (rule power_int_le_imp_less_exp[rotated]) simp_all
  define k where "k = nat (52 - ?e)"
  have u: "ulp_at ?e = 1 / 2 ^ k" using e by (simp add: ulp_at_def k_def)
  have "?x / ulp_at ?e = of_int (n * 2 ^ k)" unfolding u by simp
  then have "rne (?x / ulp_at ?e) = n * 2 ^ k" by (simp only: rne_of_int)
  then have "fl ?x = of_int (n * 2 ^ k) * (1 / 2 ^ k)"
    using False by (simp add: fl_def Let_def u)
  then show ?thesis by simp
qed

lemma fl_numeral [simp]:
  "numeral w < (2 ^ 53 :: int) \<Longrightarrow> fl (numeral w) = numeral w"
  using fl_of_int[of "numeral w"] by simp

lemma fl_1 [simp]: "fl 1 = 1"
  using fl_of_int[of 1] by simp

section \<open>The loops of computeGrid in closed form\<close>

lemma col_loop_eq:
  "col_loop dw dh s ncols row col (ts, index) =
     (ts @ map (\<lambda>k. cell_tile dw dh s row (col + int k) (index + int k)) [0..<nat (ncols - col)],
      index + int (nat (ncols - col)))"
proof (induction "nat (ncols - col)" arbitrary: col ts index)
  case 0
  then show ?case by (simp add: col_loop.simps)
next
  case (Suc n)
  then have lt: "col < ncols" and n: "n = nat (ncols - (col + 1))" by auto
  have up: "[0..<Suc n] = 0 # map Suc [0..<n]"
    by (simp add: upt_conv_Cons map_Suc_upt del: upt_Suc)
  have "col_loop dw dh s ncols row col (ts, index) =
        col_loop dw dh s ncols row (col + 1) (ts @ [cell_tile dw dh s row col index], index + 1)"
    using lt by (simp add: col_loop.simps)
  also have "\<dots> = ((ts @ [cell_tile dw dh s row col index]) @
        map (\<lambda>k. cell_tile dw dh s row (col + 1 + int k) (index + 1 + int k)) [0..<n],
        index + 1 + int n)"
    unfolding Suc.hyps(1)[OF n] n[symmetric] ..
  also have "\<dots> = (ts @ map (\<lambda>k. cell_tile dw dh s row (col + int k) (index + int k)) [0..<Suc n],
        index + int (Suc n))"
  proof -
    have a: "col + 1 + int k = col + int (Suc k)" "index + 1 + int k = index + int (Suc k)" for k
      by simp_all
    show ?thesis unfolding up a by (simp add: comp_def del: upt_Suc of_nat_Suc)
  qed
  finally show ?case unfolding Suc.hyps(2)[symmetric] .
qed

lemma col_loop_flat:
  assumes "0 < ncols" "0 \<le> row"
  shows "col_loop dw dh s ncols row 0 (map (flat_tile dw dh s ncols) [0..<nat (row * ncols)], row * ncols) =
         (map (flat_tile dw dh s ncols) [0..<nat ((row + 1) * ncols)], (row + 1) * ncols)"
proof -
  let ?m = "nat (row * ncols)" and ?n = "nat ncols"
  have m: "int ?m = row * ncols" using assms by simp
  have split: "[0..<nat ((row + 1) * ncols)] = [0..<?m] @ map (\<lambda>k. k + ?m) [0..<?n]"
  proof -
    have "nat ((row + 1) * ncols) = ?m + ?n"
      using assms by (simp add: distrib_right nat_add_distrib)
    moreover have "[0..<?m + ?n] = [0..<?m] @ [?m..<?m + ?n]"
      by (rule upt_add_eq_append) simp
    moreover have "map (\<lambda>k. k + ?m) [0..<?n] = [?m..<?m + ?n]"
      unfolding map_add_upt by (simp only: add.commute)
    ultimately show ?thesis by (simp only:)
  qed
  have cell: "cell_tile dw dh s row (int k) (row * ncols + int k) = flat_tile dw dh s ncols (k + ?m)"
    if "k < ?n" for k
  proof -
    have k: "int k < ncols" using that by simp
    have d: "(row * ncols + int k) div ncols = row" "(row * ncols + int k) mod ncols = int k"
      using k assms by simp_all
    have e: "int (k + ?m) = row * ncols + int k" using m by simp
    show ?thesis unfolding flat_tile_def e d ..
  qed
  have "col_loop dw dh s ncols row 0 (map (flat_tile dw dh s ncols) [0..<?m], row * ncols) =
        (map (flat_tile dw dh s ncols) [0..<?m] @
           map (\<lambda>k. cell_tile dw dh s row (int k) (row * ncols + int k)) [0..<?n],
         row * ncols + int ?n)"
    by (simp add: col_loop_eq)
  also have "map (\<lambda>k. cell_tile dw dh s row (int k) (row * ncols + int k)) [0..<?n] =
             map (flat_tile dw dh s ncols) (map (\<lambda>k. k + ?m) [0..<?n])"
    unfolding map_map comp_def by (rule map_cong) (simp_all add: cell)
  also have "row * ncols + int ?n = (row + 1) * ncols"
    using assms by (simp add: distrib_right)
  finally show ?thesis
    unfolding split map_append .
qed

lemma row_loop_flat:
  assumes "0 < ncols" "0 \<le> row" "row \<le> nrows"
  shows "row_loop dw dh s nrows ncols row (map (flat_tile dw dh s ncols) [0..<nat (row * ncols)], row * ncols) =
         (map (flat_tile dw dh s ncols) [0..<nat (nrows * ncols)], nrows * ncols)"
  using assms
proof (induction "nat (nrows - row)" arbitrary: row)
  case 0
  then have "row = nrows" by simp
  then show ?case by (simp add: row_loop.simps)
next
  case (Suc n)
  then have lt: "row < nrows" and n: "n = nat (nrows - (row + 1))" by auto
  have "row_loop dw dh s nrows ncols row (map (flat_tile dw dh s ncols) [0..<nat (row * ncols)], row * ncols) =
        row_loop dw dh s nrows ncols (row + 1)
          (map (flat_tile dw dh s ncols) [0..<nat ((row + 1) * ncols)], (row + 1) * ncols)"
    by (subst row_loop.simps) (simp only: lt if_True col_loop_flat[OF Suc.prems(1,2)])
  also have "\<dots> = (map (flat_tile dw dh s ncols) [0..<nat (nrows * ncols)], nrows * ncols)"
  proof (rule Suc.hyps(1)[OF n Suc.prems(1)])
    show "0 \<le> row + 1" using Suc.prems by simp
    show "row + 1 \<le> nrows" using lt by simp
  qed
  finally show ?case .
qed

lemma grid_counts_pos [simp]:
  "0 < grid_cols dw s" "0 < grid_rows dh s" "1 \<le> grid_cols dw s" "1 \<le> grid_rows dh s"
  "0 \<le> grid_cols dw s" "0 \<le> grid_rows dh s"
  by (simp_all add: grid_cols_def grid_rows_def)

lemma computeGrid_accepts:
  assumes "grid_accepts s"
  shows "computeGrid dw dh s =
     Inr \<lparr> rows = grid_rows dh s,
           cols = grid_cols dw s,
           tileWidth = bedWidth s, tileHeight = bedHeight s,
           effectiveTileWidth = eff_w s, effectiveTileHeight = eff_h s,
           tiles = map (flat_tile dw dh s (grid_cols dw s))
                     [0..<nat (grid_rows dh s *
                               grid_cols dw s)] \<rparr>"
proof -
  let ?nc = "grid_cols dw s"
  let ?nr = "grid_rows dh s"
  have "row_loop dw dh s ?nr ?nc 0 (map (flat_tile dw dh s ?nc) [0..<nat (0 * ?nc)], 0 * ?nc) =
        (map (flat_tile dw dh s ?nc) [0..<nat (?nr * ?nc)], ?nr * ?nc)"
    by (rule row_loop_flat) simp_all
  then have loop: "fst (row_loop dw dh s ?nr ?nc 0 ([], 0)) = map (flat_tile dw dh s ?nc) [0..<nat (?nr * ?nc)]"
    by simp
  have g: "\<not> (eff_w s \<le> 0 \<or> eff_h s \<le> 0)" "\<not> (step_x s \<le> 0 \<or> step_y s \<le> 0)"
    using assms by (auto simp: grid_accepts_def)
  show ?thesis
    unfolding computeGrid_def Let_def
    using g loop unfolding grid_cols_def grid_rows_def step_x_def step_y_def eff_w_def eff_h_def
    by (simp only: if_False)
qed

lemma computeGrid_rejects:
  "\<not> grid_accepts s \<Longrightarrow> \<exists>e. computeGrid dw dh s = Inl e"
  by (auto simp: computeGrid_def grid_accepts_def step_x_def step_y_def eff_w_def eff_h_def Let_def not_less)

lemma cell_tile_sel:
  "tile_row (cell_tile dw dh s r c i) = r"
  "tile_col (cell_tile dw dh s r c i) = c"
  "tile_x (cell_tile dw dh s r c i) = fmul (of_int c) (step_x s)"
  "tile_y (cell_tile dw dh s r c i) = fmul (of_int r) (step_y s)"
  "tile_width (cell_tile dw dh s r c i) =
     min (eff_w s) (fsub dw (fmul (of_int c) (step_x s)))"
  "tile_height (cell_tile dw dh s r c i) =
     min (eff_h s) (fsub dh (fmul (of_int r) (step_y s)))"
  "tile_label (cell_tile dw dh s r c i) =
     formatTileLabel r c (numberingFormat s) i (startIndexAtOne s)"
  "isEmpty (cell_tile dw dh s r c i) = False"
  "hasUnsafeFallback (cell_tile dw dh s r c i) = False"
  by (simp_all add: cell_tile_def Let_def step_x_def step_y_def eff_w_def eff_h_def)







section \<open>The default scenario\<close>

lemma scenario_arith:
  "fmul 2 5 = 10" "fsub 300 10 = 290" "fsub 200 10 = 190"
  "fsub 290 0 = 290" "fsub 190 0 = 190" "fsub 600 0 = 600" "fsub 400 0 = 400"
  "fsub 100 0 = 100"
  "fmul 0 290 = 0" "fmul 1 290 = 290" "fmul 2 290 = 580"
  "fmul 0 190 = 0" "fmul 1 190 = 190" "fmul 2 190 = 380"
  "fsub 600 290 = 310" "fsub 600 580 = 20"
  "fsub 400 190 = 210" "fsub 400 380 = 20" "fsub 100 0 = 100"
  by (simp_all add: fsub_def fmul_def fl_0)

lemma scenario_counts:
  "\<lceil>fdiv 600 290\<rceil> = 3" "\<lceil>fdiv 400 190\<rceil> = 3" "\<lceil>fdiv 100 190\<rceil> = 1"
  by code_simp+

lemma default_grid_values:
  assumes "bedWidth s = 300" "bedHeight s = 200" "margin s = 5" "overlap s = 0"
  shows "eff_w s = 290" "eff_h s = 190" "step_x s = 290" "step_y s = 190"
    "grid_accepts s" "grid_cols 600 s = 3" "grid_rows 400 s = 3" "grid_rows 100 s = 1"
proof -
  show v: "eff_w s = 290" "eff_h s = 190" "step_x s = 290" "step_y s = 190"
    unfolding step_x_def step_y_def eff_w_def eff_h_def assms by (simp_all add: scenario_arith)
  then show "grid_accepts s" by (simp add: grid_accepts_def)
  show "grid_cols 600 s = 3" "grid_rows 400 s = 3" "grid_rows 100 s = 1"
    unfolding grid_cols_def grid_rows_def v assms by (simp_all add: scenario_arith scenario_counts)
qed

lemma default_settings_values:
  "bedWidth DEFAULT_SETTINGS = 300" "bedHeight DEFAULT_SETTINGS = 200"
  "margin DEFAULT_SETTINGS = 5" "overlap DEFAULT_SETTINGS = 0"
  by (simp_all add: DEFAULT_SETTINGS_def)

section \<open>The grid on whole-number inputs\<close>












section \<open>Grid formula\<close>



section \<open>Coverage of the design by the tiles\<close>

lemma computeGrid_dims:
  assumes "grid_accepts s"
  obtains g where "computeGrid dw dh s = Inr g"
    "cols g = grid_cols dw s" "rows g = grid_rows dh s"
  using computeGrid_accepts[OF assms, of dw dh] by simp


lemma whole_mm_numeral [simp]:
  "numeral w \<le> (2 ^ 50 :: real) \<Longrightarrow> whole_mm (numeral w)"
  by (simp add: whole_mm_def)


section \<open>Where the grid arithmetic rounds\<close>









section \<open>Label uniqueness\<close>

lemma of_char_digit_char: "d < 10 \<Longrightarrow> (of_char (digit_char d) :: nat) = 48 + d"
  by (simp add: digit_char_def)

lemma foldl_digits: "foldl digit_val 0 (digits n) = n"
proof (induction n rule: digits.induct)
  case (1 n)
  show ?case
  proof (cases "n < 10")
    case True
    then show ?thesis
      by (subst digits.simps) (simp add: digit_val_def of_char_digit_char)
  next
    case False
    have "foldl digit_val 0 (digits n) =
          digit_val (foldl digit_val 0 (digits (n div 10))) (digit_char (n mod 10))"
      using False by (subst digits.simps) simp
    also have "\<dots> = 10 * (n div 10) + n mod 10"
      unfolding 1[OF False] by (simp add: digit_val_def of_char_digit_char)
    also have "\<dots> = n" by simp
    finally show ?thesis .
  qed
qed

lemma foldl_zeros: "foldl digit_val 0 (replicate k (CHR ''0'')) = 0"
  by (induction k) (simp_all add: digit_val_def)

lemma foldl_padStart: "foldl digit_val 0 (padStart w (CHR ''0'') (digits n)) = n"
  by (simp add: padStart_def foldl_zeros foldl_digits)

lemma pad_String_inj:
  assumes "0 \<le> a" "0 \<le> b"
    and "padStart w (CHR ''0'') (String_of a) = padStart w (CHR ''0'') (String_of b)"
  shows "a = b"
proof -
  have "padStart w (CHR ''0'') (digits (nat a)) = padStart w (CHR ''0'') (digits (nat b))"
    using assms by (simp add: String_of_def)
  then have "foldl digit_val 0 (padStart w (CHR ''0'') (digits (nat a))) =
             foldl digit_val 0 (padStart w (CHR ''0'') (digits (nat b)))" by simp
  then have "nat a = nat b" unfolding foldl_padStart .
  with assms(1,2) show ?thesis by simp
qed

lemma digits_range: "c \<in> set (digits n) \<Longrightarrow> 48 \<le> (of_char c :: nat) \<and> (of_char c :: nat) \<le> 57"
proof (induction n rule: digits.induct)
  case (1 n)
  show ?case
  proof (cases "n < 10")
    case True
    with 1(2) have "c = digit_char n" by (subst (asm) digits.simps) simp
    with True show ?thesis by (simp add: of_char_digit_char)
  next
    case False
    with 1(2) have "c \<in> set (digits (n div 10)) \<or> c = digit_char (n mod 10)"
      by (subst (asm) digits.simps) auto
    then show ?thesis
    proof
      assume "c \<in> set (digits (n div 10))"
      then show ?thesis by (rule 1(1)[OF False])
    next
      assume "c = digit_char (n mod 10)"
      then show ?thesis by (simp add: of_char_digit_char)
    qed
  qed
qed

lemma pad_range:
  assumes "0 \<le> a" "c \<in> set (padStart w (CHR ''0'') (String_of a))"
  shows "48 \<le> (of_char c :: nat) \<and> (of_char c :: nat) \<le> 57"
proof -
  from assms have "c = CHR ''0'' \<or> c \<in> set (digits (nat a))"
    by (auto simp: padStart_def String_of_def split: if_splits)
  then show ?thesis using digits_range by auto
qed

lemma sep_split:
  assumes "xs @ sep # ys = xs' @ sep # ys'" "sep \<notin> set xs" "sep \<notin> set xs'"
  shows "xs = xs' \<and> ys = ys'"
  using assms
proof (induction xs arbitrary: xs')
  case Nil
  then show ?case by (cases xs') auto
next
  case (Cons x xs)
  then show ?case by (cases xs') auto
qed

lemma formatTileLabel_inj:
  assumes nn: "0 \<le> r" "0 \<le> c" "0 \<le> i" "0 \<le> r'" "0 \<le> c'" "0 \<le> i'"
    and eq: "formatTileLabel r c f i b = formatTileLabel r' c' f i' b"
  shows "if f = Tile001 then i = i' else r = r' \<and> c = c'"
proof -
  define off :: int where "off = (if b then 1 else 0)"
  have off: "0 \<le> off" by (simp add: off_def)
  let ?p = "\<lambda>w n. padStart w (CHR ''0'') (String_of (n + off))"
  have noC: "CHR ''C'' \<notin> set (?p w n)" if "0 \<le> n" for w n
  proof
    assume "CHR ''C'' \<in> set (?p w n)"
    from pad_range[OF _ this] that off show False by simp
  qed
  have noD: "CHR ''-'' \<notin> set (?p w n)" if "0 \<le> n" for w n
  proof
    assume "CHR ''-'' \<in> set (?p w n)"
    from pad_range[OF _ this] that off show False by simp
  qed
  have inj: "m = n" if "0 \<le> m" "0 \<le> n" "?p w m = ?p w n" for w m n
  proof -
    have "m + off = n + off"
      using that off by (intro pad_String_inj[of _ _ w]) simp_all
    then show ?thesis by simp
  qed
  show ?thesis
  proof (cases f)
    case R01C01
    with eq have "?p 2 r @ CHR ''C'' # ?p 2 c = ?p 2 r' @ CHR ''C'' # ?p 2 c'"
      by (simp add: formatTileLabel_def off_def Let_def)
    from sep_split[OF this noC[OF nn(1)] noC[OF nn(4)]]
    have "?p 2 r = ?p 2 r'" "?p 2 c = ?p 2 c'" by simp_all
    then have "r = r'" "c = c'" using inj nn by blast+
    with R01C01 show ?thesis by simp
  next
    case Dash0101
    with eq have "?p 2 r @ CHR ''-'' # ?p 2 c = ?p 2 r' @ CHR ''-'' # ?p 2 c'"
      by (simp add: formatTileLabel_def off_def Let_def)
    from sep_split[OF this noD[OF nn(1)] noD[OF nn(4)]]
    have "?p 2 r = ?p 2 r'" "?p 2 c = ?p 2 c'" by simp_all
    then have "r = r'" "c = c'" using inj nn by blast+
    with Dash0101 show ?thesis by simp
  next
    case Tile001
    with eq have "?p 3 i = ?p 3 i'"
      by (simp add: formatTileLabel_def off_def Let_def)
    then have "i = i'" using inj nn by blast
    with Tile001 show ?thesis by simp
  qed
qed

lemma flat_labels_distinct:
  assumes nc: "0 < nc"
  shows "distinct (map tile_label (map (flat_tile dw dh s nc) [0..<n]))"
proof -
  let ?l = "\<lambda>k. formatTileLabel (int k div nc) (int k mod nc) (numberingFormat s) (int k)
                   (startIndexAtOne s)"
  have m: "map tile_label (map (flat_tile dw dh s nc) [0..<n]) = map ?l [0..<n]"
    by (simp add: flat_tile_def cell_tile_sel)
  have "inj ?l"
  proof (rule injI)
    fix j k assume e: "?l j = ?l k"
    have q: "0 \<le> int j div nc" "0 \<le> int k div nc" "0 \<le> int j mod nc" "0 \<le> int k mod nc"
      using nc by (simp_all add: pos_imp_zdiv_nonneg_iff)
    from formatTileLabel_inj[OF q(1) q(3) _ q(2) q(4) _ e]
    have c: "if numberingFormat s = Tile001 then int j = int k
             else int j div nc = int k div nc \<and> int j mod nc = int k mod nc" by simp
    show "j = k"
    proof (cases "numberingFormat s = Tile001")
      case True
      with c show ?thesis by simp
    next
      case False
      with c have d: "int j div nc = int k div nc" "int j mod nc = int k mod nc" by simp_all
      have "int j = (int j div nc) * nc + int j mod nc" by (simp only: div_mult_mod_eq)
      also have "\<dots> = (int k div nc) * nc + int k mod nc" unfolding d ..
      also have "\<dots> = int k" by (simp only: div_mult_mod_eq)
      finally show ?thesis by simp
    qed
  qed
  then have "inj_on ?l (set [0..<n])" by (rule inj_on_subset) simp
  then show ?thesis unfolding m by (simp add: distinct_map)
qed

text \<open>
  C6. No two tiles of one grid share a label: the labels of the tiles that
  \<open>computeGrid\<close> returns are pairwise distinct, whatever the numbering format and the
  start index, and so are the labels the loops produce for any row and column counts
  of at least 1.
\<close>

theorem labels_unique:
  "(computeGrid dw dh s = Inr g \<longrightarrow> distinct (map tile_label (tiles g))) \<and>
   (1 \<le> nrows \<and> 1 \<le> ncols \<longrightarrow>
      distinct (map tile_label (fst (row_loop dw dh s nrows ncols 0 ([], 0)))))"
proof (intro conjI impI)
  assume g: "computeGrid dw dh s = Inr g"
  then have acc: "grid_accepts s" using computeGrid_rejects[of s dw dh] by auto
  let ?nc = "grid_cols dw s"
  let ?nr = "grid_rows dh s"
  from g computeGrid_accepts[OF acc, of dw dh]
  have gt: "tiles g = map (flat_tile dw dh s ?nc) [0..<nat (?nr * ?nc)]" by auto
  show "distinct (map tile_label (tiles g))"
    unfolding gt by (rule flat_labels_distinct) simp
next
  assume n: "1 \<le> nrows \<and> 1 \<le> ncols"
  have "row_loop dw dh s nrows ncols 0
          (map (flat_tile dw dh s ncols) [0..<nat (0 * ncols)], 0 * ncols) =
        (map (flat_tile dw dh s ncols) [0..<nat (nrows * ncols)], nrows * ncols)"
    using n by (intro row_loop_flat) simp_all
  then have e: "fst (row_loop dw dh s nrows ncols 0 ([], 0)) =
             map (flat_tile dw dh s ncols) [0..<nat (nrows * ncols)]" by simp
  have "0 < ncols" using n by simp
  then show "distinct (map tile_label (fst (row_loop dw dh s nrows ncols 0 ([], 0))))"
    unfolding e by (rule flat_labels_distinct)
qed

lemma formatTileLabel_examples:
  "formatTileLabel 0 2 R01C01 2 True = ''R01C03''"
  "formatTileLabel 11 0 Dash0101 132 False = ''11-00''"
  "formatTileLabel 11 0 Tile001 132 True = ''Tile_133''"
  "formatTileLabel 0 1 Tile001 1 False = ''Tile_001''"
  by code_simp+

theorem labels_unique_witness:
  "(\<exists>g. computeGrid 600 400 (DEFAULT_SETTINGS\<lparr>numberingFormat := Tile001\<rparr>) = Inr g \<and>
        distinct (map tile_label (tiles g))) \<and>
   (1::int) \<le> 3 \<and> (1::int) \<le> 4 \<and>
   distinct (map tile_label
      (fst (row_loop 600 400 (DEFAULT_SETTINGS\<lparr>numberingFormat := Tile001\<rparr>) 3 4 0 ([], 0))))"
proof -
  let ?s = "DEFAULT_SETTINGS\<lparr>numberingFormat := Tile001\<rparr>"
  have acc: "grid_accepts ?s"
    by (rule default_grid_values(5)) (simp_all add: DEFAULT_SETTINGS_def)
  obtain g where g: "computeGrid 600 400 ?s = Inr g"
    by (rule computeGrid_dims[OF acc])
  from labels_unique[of 600 400 ?s g 3 4] g show ?thesis by auto
qed

section \<open>Unit conversion and mark placement\<close>

lemma convertToMm_examples:
  "convertToMm 10 ''cm'' Px72 = 100"
  "convertToMm 96 ''px'' Auto = 25.4"
  "convertToMm 96 ''px'' Px96 = 25.4"
  "convertToMm 72 ''px'' Px72 = 25.4"
  "convertToMm 96 ''PX'' Px72 = 25.4"
  "convertToMm 2 ''IN'' Auto = 50.8"
  by code_simp+

text \<open>
  C7. For every magnitude and every unit string other than \<open>px\<close>, \<open>convertToMm\<close>
  returns the same value under any two pixel modes: the mode is looked at for
  pixel lengths only.
\<close>

theorem convertToMm_mode_independent:
  "unit \<noteq> ''px'' \<Longrightarrow> convertToMm v unit mode = convertToMm v unit mode'"
  by (simp add: convertToMm_def)

theorem convertToMm_mode_independent_witness:
  "''mm'' \<noteq> ''px'' \<and> convertToMm 3 ''mm'' Px72 = convertToMm 3 ''mm'' Px96 \<and>
   convertToMm 3 ''mm'' Auto = convertToMm 3 ''mm'' Px96 \<and> convertToMm 3 ''mm'' Px96 = 3"
proof -
  have n: "''mm'' \<noteq> ''px''" by simp
  have v: "convertToMm 3 ''mm'' Px96 = 3"
    by (simp add: convertToMm_def UNIT_TO_MM_def toLowerCase_def)
  from convertToMm_mode_independent[OF n, of 3 Px72 Px96]
       convertToMm_mode_independent[OF n, of 3 Auto Px96] n v
  show ?thesis by simp
qed



section \<open>Tile clipping and the batch run\<close>

lemma sample_grid_computed: "computeGrid 600 100 DEFAULT_SETTINGS = Inr sample_grid"
proof -
  note v = default_grid_values[OF default_settings_values]
  have u: "[0..<3] = [0, 1, 2]" by (simp add: upt_rec)
  show ?thesis
    unfolding computeGrid_accepts[OF v(5)] v sample_grid_def
    by (simp add: u flat_tile_def default_settings_values)
qed

lemma trim_step_cases:
  obtains (skip) "trim_step lib r p (a, b, c) = (a, b, c)"
  | (keep) x where "bounds_intersects lib p r" "intersectPath lib p r = Inr (Some x)"
      "\<not> isEmptyPath x" "trim_step lib r p (a, b, c) = (a @ [x], True, c)"
  | (fallback) e where "bounds_intersects lib p r" "intersectPath lib p r = Inl e"
      "trim_step lib r p (a, b, c) = (a @ [p], True, True)"
proof (cases "bounds_intersects lib p r")
  case False
  then have "trim_step lib r p (a, b, c) = (a, b, c)" by (simp add: trim_step_def)
  then show ?thesis by (rule skip)
next
  case bi: True
  show ?thesis
  proof (cases "intersectPath lib p r")
    case (Inl e)
    with bi have "trim_step lib r p (a, b, c) = (a @ [p], True, True)"
      by (simp add: trim_step_def)
    with bi Inl show ?thesis by (rule fallback)
  next
    case (Inr res)
    show ?thesis
    proof (cases res)
      case None
      with bi Inr have "trim_step lib r p (a, b, c) = (a, b, c)" by (simp add: trim_step_def)
      then show ?thesis by (rule skip)
    next
      case (Some x)
      show ?thesis
      proof (cases "isEmptyPath x")
        case True
        with bi Inr Some have "trim_step lib r p (a, b, c) = (a, b, c)"
          by (simp add: trim_step_def)
        then show ?thesis by (rule skip)
      next
        case False
        with bi Inr Some have "trim_step lib r p (a, b, c) = (a @ [x], True, c)"
          by (simp add: trim_step_def)
        with bi Inr Some False show ?thesis by (intro keep[of x]) simp_all
      qed
    qed
  qed
qed

lemma trim_step_throw:
  assumes "bounds_intersects lib p r" "intersectPath lib p r = Inl e"
  shows "trim_step lib r p (a, b, c) = (a @ [p], True, True)"
  using assms by (simp add: trim_step_def)

lemma trim_step_keep:
  assumes "bounds_intersects lib p r" "intersectPath lib p r = Inr (Some x)" "\<not> isEmptyPath x"
  shows "trim_step lib r p (a, b, c) = (a @ [x], True, c)"
  using assms by (simp add: trim_step_def)

lemma trim_step_empty:
  assumes "intersectPath lib p r = Inr res" "case res of None \<Rightarrow> True | Some x \<Rightarrow> isEmptyPath x"
  shows "trim_step lib r p st = st"
  using assms by (cases st) (auto simp: trim_step_def split: option.splits)

lemma trim_loop_append:
  "trim_loop lib r (ps @ qs) st = trim_loop lib r qs (trim_loop lib r ps st)"
  by (induction ps arbitrary: st) simp_all

lemma trim_loop_mono:
  assumes "trim_loop lib r ps (a, b, c) = (a', b', c')"
  shows "set a \<subseteq> set a' \<and> (b \<longrightarrow> b') \<and> (c \<longrightarrow> c')"
  using assms
proof (induction ps arbitrary: a b c)
  case Nil
  then show ?case by simp
next
  case (Cons p ps)
  show ?case
  proof (cases rule: trim_step_cases[of lib r p a b c])
    case skip
    with Cons.prems have "trim_loop lib r ps (a, b, c) = (a', b', c')" by simp
    from Cons.IH[OF this] show ?thesis .
  next
    case (keep x)
    with Cons.prems have "trim_loop lib r ps (a @ [x], True, c) = (a', b', c')" by simp
    from Cons.IH[OF this] show ?thesis by simp
  next
    case (fallback e)
    with Cons.prems have "trim_loop lib r ps (a @ [p], True, True) = (a', b', c')" by simp
    from Cons.IH[OF this] show ?thesis by simp
  qed
qed

lemma trim_loop_throw_member:
  assumes "p \<in> set ps" "bounds_intersects lib p r" "intersectPath lib p r = Inl e"
    and "trim_loop lib r ps st = (a', b', c')"
  shows "p \<in> set a' \<and> b' \<and> c'"
proof -
  from assms(1) obtain xs ys where ps: "ps = xs @ p # ys" by (auto simp: in_set_conv_decomp)
  obtain a b c where m: "trim_loop lib r xs st = (a, b, c)" by (cases "trim_loop lib r xs st")
  have "trim_loop lib r ys (a @ [p], True, True) = (a', b', c')"
    using assms(4) unfolding ps trim_loop_append m
    by (simp add: trim_step_throw[OF assms(2,3)])
  from trim_loop_mono[OF this] show ?thesis by auto
qed

lemma trim_loop_keep_member:
  assumes "q \<in> set ps" "bounds_intersects lib q r" "intersectPath lib q r = Inr (Some x)"
    "\<not> isEmptyPath x"
    and "trim_loop lib r ps st = (a', b', c')"
  shows "x \<in> set a' \<and> b'"
proof -
  from assms(1) obtain xs ys where ps: "ps = xs @ q # ys" by (auto simp: in_set_conv_decomp)
  obtain a b c where m: "trim_loop lib r xs st = (a, b, c)" by (cases "trim_loop lib r xs st")
  have "trim_loop lib r ys (a @ [x], True, c) = (a', b', c')"
    using assms(5) unfolding ps trim_loop_append m
    by (simp add: trim_step_keep[OF assms(2,3,4)])
  from trim_loop_mono[OF this] show ?thesis by auto
qed

lemma trim_loop_drop_empty:
  assumes "intersectPath lib p r = Inr res" "case res of None \<Rightarrow> True | Some x \<Rightarrow> isEmptyPath x"
  shows "trim_loop lib r (ps @ p # qs) st = trim_loop lib r (ps @ qs) st"
  unfolding trim_loop_append by (simp add: trim_step_empty[OF assms])

lemma trim_step_outcome:
  assumes "trim_step lib r q (a, b, c) = (a', b', c')"
  shows "(c' \<longleftrightarrow> c \<or> bounds_intersects lib q r \<and> (\<exists>e. intersectPath lib q r = Inl e)) \<and>
         (\<forall>y. y \<in> set a' \<longleftrightarrow> y \<in> set a \<or>
            bounds_intersects lib q r \<and>
            ((\<exists>e. intersectPath lib q r = Inl e) \<and> y = q \<or>
             intersectPath lib q r = Inr (Some y) \<and> \<not> isEmptyPath y))"
  using assms
  by (auto simp: trim_step_def split: sum.splits option.splits if_splits)

lemma trim_loop_outcome:
  assumes "trim_loop lib r qs (a, b, c) = (a', b', c')"
  shows "(c' \<longleftrightarrow> c \<or> (\<exists>q \<in> set qs. bounds_intersects lib q r \<and>
                                (\<exists>e. intersectPath lib q r = Inl e))) \<and>
         (\<forall>y. y \<in> set a' \<longleftrightarrow> y \<in> set a \<or>
            (\<exists>q \<in> set qs. bounds_intersects lib q r \<and>
               ((\<exists>e. intersectPath lib q r = Inl e) \<and> y = q \<or>
                intersectPath lib q r = Inr (Some y) \<and> \<not> isEmptyPath y)))"
  using assms
proof (induction qs arbitrary: a b c)
  case Nil
  then show ?case by simp
next
  case (Cons q qs)
  obtain a1 b1 c1 where s: "trim_step lib r q (a, b, c) = (a1, b1, c1)"
    by (cases "trim_step lib r q (a, b, c)")
  from Cons.prems have l: "trim_loop lib r qs (a1, b1, c1) = (a', b', c')"
    unfolding trim_loop.simps s .
  note o = trim_step_outcome[OF s]
  note i = Cons.IH[OF l]
  have f: "c' \<longleftrightarrow> c \<or> (\<exists>q \<in> set (q # qs). bounds_intersects lib q r \<and>
                                (\<exists>e. intersectPath lib q r = Inl e))"
    unfolding i[THEN conjunct1] o[THEN conjunct1] by auto
  have m: "y \<in> set a' \<longleftrightarrow> y \<in> set a \<or>
            (\<exists>q \<in> set (q # qs). bounds_intersects lib q r \<and>
               ((\<exists>e. intersectPath lib q r = Inl e) \<and> y = q \<or>
                intersectPath lib q r = Inr (Some y) \<and> \<not> isEmptyPath y))" for y
    unfolding i[THEN conjunct2, rule_format] o[THEN conjunct2, rule_format] by auto
  from f m show ?case by blast
qed

text \<open>The laser-safe branch of processSingleTile, once the import has succeeded.\<close>

lemma processSingleTile_laser:
  assumes "exportMode s = LaserSafe" "importSVG lib (originalContent svg) = Some imp"
    and "trim_loop lib (tileRectInSvg svg tile grid)
           (getAllPaths (if expandStrokes s then strokes_expanded lib imp else imp))
           ([], False, False) = (a, b, c)"
  shows "processSingleTile lib svg tile grid s =
     (if \<not> b \<and> \<not> exportEmptyTiles s then (tile\<lparr> isEmpty := True \<rparr>, None)
      else finish_tile lib tile grid s b c
             \<lparr> retained = a, clipMask = None,
               translation =
                 (- rect_x (tileRectInSvg svg tile grid) + margin s / designScaleX svg,
                  - rect_y (tileRectInSvg svg tile grid) + margin s / designScaleY svg),
               simplified = (if simplifyTolerance s > 0
                             then Some (simplifyTolerance s / designScaleX svg) else None),
               guides = guidesEnabled s \<rparr>)"
  using assms by (simp add: processSingleTile_def Let_def)

lemma finish_tile_content:
  "finish_tile lib tile grid s True c doc =
     (tile\<lparr> isEmpty := False, hasUnsafeFallback := c \<rparr>,
      Some \<lparr> result_tile = tile\<lparr> isEmpty := False, hasUnsafeFallback := c,
                 svgContent := Some (exportTileSVG lib doc grid s (tile_row tile) (tile_col tile)) \<rparr>,
             result_svgContent = exportTileSVG lib doc grid s (tile_row tile) (tile_col tile),
             result_doc = doc \<rparr>)"
  by (simp add: finish_tile_def Let_def)

lemma process_loop_cancelled:
  assumes "i \<le> k" "k < n" "sc k"
  shows "snd (process_loop lib svg grid s sc n i ts results) = Inl (Error ''Processing cancelled'')"
  using assms
proof (induction "k - i" arbitrary: i ts results)
  case 0
  then have "i = k" by simp
  with 0 show ?case by (subst process_loop.simps) simp
next
  case (Suc d)
  then have lt: "i < n" and le: "i + 1 \<le> k" and d: "d = k - (i + 1)" by simp_all
  show ?case
  proof (cases "sc i")
    case True
    with lt show ?thesis by (subst process_loop.simps) simp
  next
    case False
    obtain t' res where p: "processSingleTile lib svg (ts ! i) grid s = (t', res)"
      by (cases "processSingleTile lib svg (ts ! i) grid s")
    have "process_loop lib svg grid s sc n i ts results =
          process_loop lib svg grid s sc n (i + 1) (ts[i := t'])
            (case res of Some r \<Rightarrow> results @ [r] | None \<Rightarrow> results)"
      using lt False p by (subst process_loop.simps) simp
    then show ?thesis using Suc.hyps(1)[OF d le Suc.prems(2,3)] by simp
  qed
qed

lemma process_loop_no_cancel:
  assumes "\<And>j. \<not> sc j" "i \<le> length ts" "n = length ts"
  shows "process_loop lib svg grid s sc n i ts results =
           (take i ts @ map (\<lambda>t. fst (processSingleTile lib svg t grid s)) (drop i ts),
            Inr (results @ List.map_filter (\<lambda>t. snd (processSingleTile lib svg t grid s)) (drop i ts)))"
  using assms(2,3)
proof (induction "n - i" arbitrary: i ts results)
  case 0
  then have "i = length ts" by simp
  with 0 show ?case by (subst process_loop.simps) simp
next
  case (Suc d)
  let ?f = "\<lambda>t. fst (processSingleTile lib svg t grid s)"
  let ?g = "\<lambda>t. snd (processSingleTile lib svg t grid s)"
  from Suc have lt: "i < length ts" and d: "d = n - (i + 1)" by simp_all
  let ?ts = "ts[i := ?f (ts ! i)]"
  let ?rs = "case ?g (ts ! i) of Some r \<Rightarrow> results @ [r] | None \<Rightarrow> results"
  have len: "i + 1 \<le> length ?ts" "n = length ?ts" using lt Suc.prems by simp_all
  have step: "process_loop lib svg grid s sc n i ts results =
        process_loop lib svg grid s sc n (i + 1) ?ts ?rs"
    using lt Suc.prems(2) assms(1)
    by (subst process_loop.simps) (simp add: split_beta)
  have dr: "drop i ts = ts ! i # drop (i + 1) ts"
    using lt by (simp add: Cons_nth_drop_Suc)
  have tk: "take (i + 1) ?ts = take i ts @ [?f (ts ! i)]"
    using lt by (simp add: take_Suc_conv_app_nth)
  have dp: "drop (i + 1) ?ts = drop (i + 1) ts" by simp
  have rs: "?rs @ List.map_filter ?g (drop (i + 1) ts) =
            results @ List.map_filter ?g (drop i ts)"
    unfolding dr by (cases "?g (ts ! i)") simp_all
  show ?case
    unfolding step Suc.hyps(1)[OF d len] tk dp rs
    unfolding dr by simp
qed

lemma processTiles_no_cancel:
  assumes "\<And>j. \<not> sc j"
  shows "processTiles lib svg grid s sc =
           (map (\<lambda>t. fst (processSingleTile lib svg t grid s)) (tiles grid),
            Inr (List.map_filter (\<lambda>t. snd (processSingleTile lib svg t grid s)) (tiles grid)))"
  unfolding processTiles_def
  using process_loop_no_cancel[where sc = sc and i = 0 and ts = "tiles grid"
          and n = "length (tiles grid)" and results = "[]", OF assms]
  by simp

text \<open>
  C9. Under the fast-clip mode, whenever the source imports, \<open>processSingleTile\<close>
  returns a result (the tile is never omitted) and leaves the tile, and the tile of the
  result, with \<open>isEmpty = false\<close> and \<open>hasUnsafeFallback = false\<close>. Nothing is
  assumed about the geometry, the crop window or \<open>exportEmptyTiles\<close>.
\<close>

theorem fast_clip_never_empty:
  assumes "exportMode s = FastClip" "importSVG lib (originalContent svg) = Some imp"
  shows "\<exists>r. processSingleTile lib svg tile grid s =
               (tile\<lparr> isEmpty := False, hasUnsafeFallback := False \<rparr>, Some r) \<and>
             \<not> isEmpty (result_tile r) \<and> \<not> hasUnsafeFallback (result_tile r)"
  using assms by (simp add: processSingleTile_def Let_def finish_tile_content)

theorem fast_clip_never_empty_witness:
  "exportMode (DEFAULT_SETTINGS\<lparr>exportMode := FastClip\<rparr>) = FastClip \<and>
   exportEmptyTiles (DEFAULT_SETTINGS\<lparr>exportMode := FastClip\<rparr>) = False \<and>
   importSVG paper_empty (originalContent sample_svg) = Some (Group [one_path]) \<and>
   (\<exists>r. processSingleTile paper_empty sample_svg (tiles sample_grid ! 2) sample_grid
            (DEFAULT_SETTINGS\<lparr>exportMode := FastClip\<rparr>) =
            ((tiles sample_grid ! 2)\<lparr> isEmpty := False, hasUnsafeFallback := False \<rparr>, Some r) \<and>
         \<not> isEmpty (result_tile r) \<and> \<not> hasUnsafeFallback (result_tile r))"
proof -
  let ?s = "DEFAULT_SETTINGS\<lparr>exportMode := FastClip\<rparr>"
  have m: "exportMode ?s = FastClip" by simp
  have e: "exportEmptyTiles ?s = False" by (simp add: DEFAULT_SETTINGS_def)
  have i: "importSVG paper_empty (originalContent sample_svg) = Some (Group [one_path])"
    by (simp add: paper_empty_def)
  from fast_clip_never_empty[OF m i, of "tiles sample_grid ! 2" sample_grid] m e i
  show ?thesis by simp
qed

text \<open>
  C4. Under the laser-safe mode, a primitive whose bounding box meets the crop window
  and whose boolean intersection throws is included in the tile's output as it is; the
  tile gets \<open>hasUnsafeFallback = true\<close> and \<open>isEmpty = false\<close>, and a result is
  returned for it. The failure stops neither the tile nor the batch: every other
  primitive of the tile is still processed (one that intersects to a non-empty path has
  that path in the output, one that throws is included too), and without cancellation
  \<open>processTiles\<close> ends with results, having processed every tile of the grid.
\<close>

theorem clip_failure_recovered_locally:
  "(exportMode s = LaserSafe \<and> importSVG lib (originalContent svg) = Some imp \<and>
    p \<in> set (getAllPaths (if expandStrokes s then strokes_expanded lib imp else imp)) \<and>
    bounds_intersects lib p (tileRectInSvg svg tile grid) \<and>
    intersectPath lib p (tileRectInSvg svg tile grid) = Inl e \<longrightarrow>
      (\<exists>tile' r. processSingleTile lib svg tile grid s = (tile', Some r) \<and>
         p \<in> set (retained (result_doc r)) \<and>
         hasUnsafeFallback (result_tile r) \<and> \<not> isEmpty (result_tile r) \<and>
         hasUnsafeFallback tile' \<and> \<not> isEmpty tile' \<and>
         (\<forall>q x. q \<in> set (getAllPaths (if expandStrokes s then strokes_expanded lib imp else imp)) \<and>
                bounds_intersects lib q (tileRectInSvg svg tile grid) \<and>
                intersectPath lib q (tileRectInSvg svg tile grid) = Inr (Some x) \<and>
                \<not> isEmptyPath x \<longrightarrow> x \<in> set (retained (result_doc r))) \<and>
         (\<forall>q e'. q \<in> set (getAllPaths (if expandStrokes s then strokes_expanded lib imp else imp)) \<and>
                bounds_intersects lib q (tileRectInSvg svg tile grid) \<and>
                intersectPath lib q (tileRectInSvg svg tile grid) = Inl e' \<longrightarrow>
                q \<in> set (retained (result_doc r))))) \<and>
   ((\<forall>j. \<not> shouldCancel j) \<longrightarrow>
      processTiles lib svg grid s shouldCancel =
        (map (\<lambda>t. fst (processSingleTile lib svg t grid s)) (tiles grid),
         Inr (List.map_filter (\<lambda>t. snd (processSingleTile lib svg t grid s)) (tiles grid))))"
proof (intro conjI impI)
  assume a: "exportMode s = LaserSafe \<and> importSVG lib (originalContent svg) = Some imp \<and>
    p \<in> set (getAllPaths (if expandStrokes s then strokes_expanded lib imp else imp)) \<and>
    bounds_intersects lib p (tileRectInSvg svg tile grid) \<and>
    intersectPath lib p (tileRectInSvg svg tile grid) = Inl e"
  let ?ps = "getAllPaths (if expandStrokes s then strokes_expanded lib imp else imp)"
  let ?r = "tileRectInSvg svg tile grid"
  obtain items b c where t: "trim_loop lib ?r ?ps ([], False, False) = (items, b, c)"
    by (cases "trim_loop lib ?r ?ps ([], False, False)")
  from a have mode: "exportMode s = LaserSafe"
    and imp: "importSVG lib (originalContent svg) = Some imp"
    and p: "p \<in> set ?ps" "bounds_intersects lib p ?r" "intersectPath lib p ?r = Inl e"
    by simp_all
  from trim_loop_throw_member[OF p t] have pm: "p \<in> set items" and b: "b" and c: "c"
    by simp_all
  let ?doc = "\<lparr> retained = items, clipMask = None,
               translation =
                 (- rect_x ?r + margin s / designScaleX svg,
                  - rect_y ?r + margin s / designScaleY svg),
               simplified = (if simplifyTolerance s > 0
                             then Some (simplifyTolerance s / designScaleX svg) else None),
               guides = guidesEnabled s \<rparr>"
  let ?svgc = "exportTileSVG lib ?doc grid s (tile_row tile) (tile_col tile)"
  let ?tile' = "tile\<lparr> isEmpty := False, hasUnsafeFallback := True \<rparr>"
  let ?res = "\<lparr> result_tile = ?tile'\<lparr> svgContent := Some ?svgc \<rparr>,
                result_svgContent = ?svgc, result_doc = ?doc \<rparr>"
  have run: "processSingleTile lib svg tile grid s = (?tile', Some ?res)"
    unfolding processSingleTile_laser[OF mode imp t] using b c
    by (simp add: finish_tile_content)
  have others: "x \<in> set (retained (result_doc ?res))"
    if "q \<in> set ?ps \<and> bounds_intersects lib q ?r \<and>
        intersectPath lib q ?r = Inr (Some x) \<and> \<not> isEmptyPath x" for q x
    using trim_loop_keep_member[OF _ _ _ _ t, of q x] that by simp
  have throws: "q \<in> set (retained (result_doc ?res))"
    if "q \<in> set ?ps \<and> bounds_intersects lib q ?r \<and> intersectPath lib q ?r = Inl e'" for q e'
    using trim_loop_throw_member[OF _ _ _ t, of q e'] that by simp
  show "\<exists>tile' r. processSingleTile lib svg tile grid s = (tile', Some r) \<and>
         p \<in> set (retained (result_doc r)) \<and>
         hasUnsafeFallback (result_tile r) \<and> \<not> isEmpty (result_tile r) \<and>
         hasUnsafeFallback tile' \<and> \<not> isEmpty tile' \<and>
         (\<forall>q x. q \<in> set ?ps \<and> bounds_intersects lib q ?r \<and>
                intersectPath lib q ?r = Inr (Some x) \<and>
                \<not> isEmptyPath x \<longrightarrow> x \<in> set (retained (result_doc r))) \<and>
         (\<forall>q e'. q \<in> set ?ps \<and> bounds_intersects lib q ?r \<and>
                intersectPath lib q ?r = Inl e' \<longrightarrow>
                q \<in> set (retained (result_doc r)))"
  proof (intro exI[of _ ?tile'] exI[of _ ?res] conjI allI impI)
    show "processSingleTile lib svg tile grid s = (?tile', Some ?res)" by (rule run)
    show "p \<in> set (retained (result_doc ?res))" using pm by simp
    show "hasUnsafeFallback (result_tile ?res)" by simp
    show "\<not> isEmpty (result_tile ?res)" by simp
    show "hasUnsafeFallback ?tile'" by simp
    show "\<not> isEmpty ?tile'" by simp
  next
    fix q x
    assume "q \<in> set ?ps \<and> bounds_intersects lib q ?r \<and>
        intersectPath lib q ?r = Inr (Some x) \<and> \<not> isEmptyPath x"
    then show "x \<in> set (retained (result_doc ?res))" by (rule others)
  next
    fix q e'
    assume "q \<in> set ?ps \<and> bounds_intersects lib q ?r \<and> intersectPath lib q ?r = Inl e'"
    then show "q \<in> set (retained (result_doc ?res))" by (rule throws)
  qed
next
  assume "\<forall>j. \<not> shouldCancel j"
  then show "processTiles lib svg grid s shouldCancel =
        (map (\<lambda>t. fst (processSingleTile lib svg t grid s)) (tiles grid),
         Inr (List.map_filter (\<lambda>t. snd (processSingleTile lib svg t grid s)) (tiles grid)))"
    by (intro processTiles_no_cancel) simp
qed

lemma sample_tiles:
  "tiles sample_grid ! 0 = cell_tile 600 100 DEFAULT_SETTINGS 0 0 0"
  "length (tiles sample_grid) = 3"
  by (simp_all add: sample_grid_def)

lemma one_path_paths: "getAllPaths one_path = [one_path]"
  by (simp add: one_path_def)

lemma sample_paths: "getAllPaths (Group [one_path]) = [one_path]"
  by (simp add: one_path_paths)

lemma default_mode:
  "exportMode DEFAULT_SETTINGS = LaserSafe" "expandStrokes DEFAULT_SETTINGS = False"
  "exportEmptyTiles DEFAULT_SETTINGS = False"
  by (simp_all add: DEFAULT_SETTINGS_def)

theorem clip_failure_recovered_locally_witness:
  "exportMode DEFAULT_SETTINGS = LaserSafe \<and>
   importSVG paper_throwing (originalContent sample_svg) = Some (Group [one_path]) \<and>
   one_path \<in> set (getAllPaths (Group [one_path])) \<and>
   bounds_intersects paper_throwing one_path
     (tileRectInSvg sample_svg (tiles sample_grid ! 0) sample_grid) \<and>
   intersectPath paper_throwing one_path
     (tileRectInSvg sample_svg (tiles sample_grid ! 0) sample_grid) =
     Inl (Error ''boolean operation failed'') \<and>
   (\<exists>tile' r. processSingleTile paper_throwing sample_svg (tiles sample_grid ! 0) sample_grid
                 DEFAULT_SETTINGS = (tile', Some r) \<and>
       one_path \<in> set (retained (result_doc r)) \<and>
       hasUnsafeFallback (result_tile r) \<and> \<not> isEmpty (result_tile r)) \<and>
   (\<exists>ts rs. processTiles paper_throwing sample_svg sample_grid DEFAULT_SETTINGS (\<lambda>j. False) =
               (ts, Inr rs) \<and> length ts = 3)"
proof -
  let ?r = "tileRectInSvg sample_svg (tiles sample_grid ! 0) sample_grid"
  let ?t = "tiles sample_grid ! 0"
  have i: "importSVG paper_throwing (originalContent sample_svg) = Some (Group [one_path])"
    by (simp add: paper_throwing_def)
  have m: "one_path \<in> set (getAllPaths (Group [one_path]))" by (simp add: one_path_paths)
  have b: "bounds_intersects paper_throwing one_path ?r" by (simp add: paper_throwing_def)
  have x: "intersectPath paper_throwing one_path ?r = Inl (Error ''boolean operation failed'')"
    by (simp add: intersectPath_def one_path_def paper_throwing_def)
  note inst = clip_failure_recovered_locally[of DEFAULT_SETTINGS paper_throwing sample_svg
      "Group [one_path]" one_path ?t sample_grid "Error ''boolean operation failed''"
      "\<lambda>j. False"]
  from inst i m b x default_mode
  obtain tile' r where
    "processSingleTile paper_throwing sample_svg ?t sample_grid DEFAULT_SETTINGS = (tile', Some r)"
    "one_path \<in> set (retained (result_doc r))"
    "hasUnsafeFallback (result_tile r)" "\<not> isEmpty (result_tile r)"
    by auto
  then have one: "\<exists>tile' r. processSingleTile paper_throwing sample_svg ?t sample_grid
                 DEFAULT_SETTINGS = (tile', Some r) \<and>
       one_path \<in> set (retained (result_doc r)) \<and>
       hasUnsafeFallback (result_tile r) \<and> \<not> isEmpty (result_tile r)" by blast
  from inst have "processTiles paper_throwing sample_svg sample_grid DEFAULT_SETTINGS (\<lambda>j. False) =
        (map (\<lambda>t. fst (processSingleTile paper_throwing sample_svg t sample_grid DEFAULT_SETTINGS))
           (tiles sample_grid),
         Inr (List.map_filter
           (\<lambda>t. snd (processSingleTile paper_throwing sample_svg t sample_grid DEFAULT_SETTINGS))
           (tiles sample_grid)))" by simp
  then have all: "\<exists>ts rs. processTiles paper_throwing sample_svg sample_grid DEFAULT_SETTINGS
               (\<lambda>j. False) = (ts, Inr rs) \<and> length ts = 3"
    by (simp add: sample_tiles)
  from i m b x one all default_mode(1) show ?thesis by blast
qed

text \<open>
  C3 states that an empty intersection result is treated like a thrown one. It is not:
  with a boolean operator that returns a path without segments, the only primitive of
  the design is not in the tile's output and \<open>hasUnsafeFallback\<close> stays false; the
  tile is flagged empty, and omitted unless empty tiles are exported.
\<close>

theorem empty_result_no_fallback_counterexample:
  "exportMode (DEFAULT_SETTINGS\<lparr>exportEmptyTiles := True\<rparr>) = LaserSafe \<and>
   getAllPaths (Group [one_path]) = [one_path] \<and>
   bounds_intersects paper_empty one_path
     (tileRectInSvg sample_svg (tiles sample_grid ! 0) sample_grid) \<and>
   intersectPath paper_empty one_path
     (tileRectInSvg sample_svg (tiles sample_grid ! 0) sample_grid) = Inr (Some (Path [])) \<and>
   isEmptyPath (Path []) \<and>
   (\<exists>tile' r. processSingleTile paper_empty sample_svg (tiles sample_grid ! 0) sample_grid
                 (DEFAULT_SETTINGS\<lparr>exportEmptyTiles := True\<rparr>) = (tile', Some r) \<and>
       retained (result_doc r) = [] \<and>
       \<not> hasUnsafeFallback (result_tile r) \<and> isEmpty (result_tile r) \<and>
       \<not> hasUnsafeFallback tile' \<and> isEmpty tile') \<and>
   processSingleTile paper_empty sample_svg (tiles sample_grid ! 0) sample_grid DEFAULT_SETTINGS =
     ((tiles sample_grid ! 0)\<lparr> isEmpty := True \<rparr>, None)"
proof -
  let ?r = "tileRectInSvg sample_svg (tiles sample_grid ! 0) sample_grid"
  let ?t = "tiles sample_grid ! 0"
  let ?s = "DEFAULT_SETTINGS\<lparr>exportEmptyTiles := True\<rparr>"
  have i: "importSVG paper_empty (originalContent sample_svg) = Some (Group [one_path])"
    by (simp add: paper_empty_def)
  have b: "bounds_intersects paper_empty one_path ?r" by (simp add: paper_empty_def)
  have x: "intersectPath paper_empty one_path ?r = Inr (Some (Path []))"
    by (simp add: intersectPath_def one_path_def paper_empty_def)
  have st: "trim_step paper_empty ?r one_path ([], False, False) = ([], False, False)"
    by (rule trim_step_empty[OF x]) simp
  have tl: "trim_loop paper_empty ?r (getAllPaths (if expandStrokes s then
              strokes_expanded paper_empty (Group [one_path]) else Group [one_path]))
              ([], False, False) = ([], False, False)" for s :: Settings
  proof -
    have se: "strokes_expanded paper_empty it = it" for it by (simp add: paper_empty_def)
    show ?thesis unfolding se by (simp add: one_path_paths st)
  qed
  have ms: "exportMode ?s = LaserSafe" by (simp add: default_mode)
  have r1: "\<exists>tile' r. processSingleTile paper_empty sample_svg ?t sample_grid ?s = (tile', Some r) \<and>
       retained (result_doc r) = [] \<and>
       \<not> hasUnsafeFallback (result_tile r) \<and> isEmpty (result_tile r) \<and>
       \<not> hasUnsafeFallback tile' \<and> isEmpty tile'"
    unfolding processSingleTile_laser[OF ms i tl]
    by (simp add: finish_tile_def Let_def)
  have r2: "processSingleTile paper_empty sample_svg ?t sample_grid DEFAULT_SETTINGS =
     (?t\<lparr> isEmpty := True \<rparr>, None)"
    unfolding processSingleTile_laser[OF default_mode(1) i tl]
    by (simp add: default_mode)
  from ms sample_paths b x r1 r2 show ?thesis by simp
qed

lemma drop_empty_primitive:
  assumes "exportMode s = LaserSafe" "importSVG lib (originalContent svg) = Some imp"
    and "getAllPaths (if expandStrokes s then strokes_expanded lib imp else imp) = ps @ p # qs"
    and "bounds_intersects lib p (tileRectInSvg svg tile grid)"
    and "intersectPath lib p (tileRectInSvg svg tile grid) = Inr res"
    and "case res of None \<Rightarrow> True | Some x \<Rightarrow> isEmptyPath x"
  shows "trim_step lib (tileRectInSvg svg tile grid) p st = st \<and>
     (\<forall>tile' r. processSingleTile lib svg tile grid s = (tile', Some r) \<longrightarrow>
        retained (result_doc r) =
          fst (trim_loop lib (tileRectInSvg svg tile grid) (ps @ qs) ([], False, False)) \<and>
        hasUnsafeFallback (result_tile r) =
          snd (snd (trim_loop lib (tileRectInSvg svg tile grid) (ps @ qs) ([], False, False))) \<and>
        (hasUnsafeFallback (result_tile r) \<longleftrightarrow>
           (\<exists>q \<in> set (ps @ qs). bounds_intersects lib q (tileRectInSvg svg tile grid) \<and>
              (\<exists>e. intersectPath lib q (tileRectInSvg svg tile grid) = Inl e))) \<and>
        (hasUnsafeFallback tile' \<longleftrightarrow> hasUnsafeFallback (result_tile r)) \<and>
        (\<forall>y. y \<in> set (retained (result_doc r)) \<longleftrightarrow>
           (\<exists>q \<in> set (ps @ qs). bounds_intersects lib q (tileRectInSvg svg tile grid) \<and>
              ((\<exists>e. intersectPath lib q (tileRectInSvg svg tile grid) = Inl e) \<and> y = q \<or>
               intersectPath lib q (tileRectInSvg svg tile grid) = Inr (Some y) \<and>
               \<not> isEmptyPath y)))) \<and>
     (ps = [] \<and> qs = [] \<longrightarrow>
        isEmpty (fst (processSingleTile lib svg tile grid s)) \<and>
        (if exportEmptyTiles s
         then \<exists>r. snd (processSingleTile lib svg tile grid s) = Some r \<and>
                  retained (result_doc r) = [] \<and> \<not> hasUnsafeFallback (result_tile r)
         else snd (processSingleTile lib svg tile grid s) = None))"
proof -
  let ?r = "tileRectInSvg svg tile grid"
  obtain a b c where t: "trim_loop lib ?r (ps @ qs) ([], False, False) = (a, b, c)"
    by (cases "trim_loop lib ?r (ps @ qs) ([], False, False)")
  have t': "trim_loop lib ?r
              (getAllPaths (if expandStrokes s then strokes_expanded lib imp else imp))
              ([], False, False) = (a, b, c)"
    unfolding assms(3) trim_loop_drop_empty[OF assms(5,6)] by (rule t)
  note run = processSingleTile_laser[OF assms(1,2) t']
  note out = trim_loop_outcome[OF t]
  have 1: "trim_step lib ?r p st = st" by (rule trim_step_empty[OF assms(5,6)])
  have 2: "retained (result_doc r) = fst (trim_loop lib ?r (ps @ qs) ([], False, False)) \<and>
           hasUnsafeFallback (result_tile r) =
             snd (snd (trim_loop lib ?r (ps @ qs) ([], False, False))) \<and>
           (hasUnsafeFallback (result_tile r) \<longleftrightarrow>
              (\<exists>q \<in> set (ps @ qs). bounds_intersects lib q ?r \<and>
                 (\<exists>e. intersectPath lib q ?r = Inl e))) \<and>
           (hasUnsafeFallback tile' \<longleftrightarrow> hasUnsafeFallback (result_tile r)) \<and>
           (\<forall>y. y \<in> set (retained (result_doc r)) \<longleftrightarrow>
              (\<exists>q \<in> set (ps @ qs). bounds_intersects lib q ?r \<and>
                 ((\<exists>e. intersectPath lib q ?r = Inl e) \<and> y = q \<or>
                  intersectPath lib q ?r = Inr (Some y) \<and> \<not> isEmptyPath y)))"
    if "processSingleTile lib svg tile grid s = (tile', Some r)" for tile' r
  proof -
    from that have r: "retained (result_doc r) = a" "hasUnsafeFallback (result_tile r) = c"
      "hasUnsafeFallback tile' = c"
      unfolding run by (auto simp: finish_tile_def Let_def split: if_splits)
    have f: "c \<longleftrightarrow> (\<exists>q \<in> set (ps @ qs). bounds_intersects lib q ?r \<and>
                 (\<exists>e. intersectPath lib q ?r = Inl e))"
      using out[THEN conjunct1] by simp
    have m: "\<forall>y. y \<in> set a \<longleftrightarrow>
              (\<exists>q \<in> set (ps @ qs). bounds_intersects lib q ?r \<and>
                 ((\<exists>e. intersectPath lib q ?r = Inl e) \<and> y = q \<or>
                  intersectPath lib q ?r = Inr (Some y) \<and> \<not> isEmptyPath y))"
      using out[THEN conjunct2] by simp
    show ?thesis unfolding r t using f m by simp
  qed
  have 3: "isEmpty (fst (processSingleTile lib svg tile grid s)) \<and>
        (if exportEmptyTiles s
         then \<exists>r. snd (processSingleTile lib svg tile grid s) = Some r \<and>
                  retained (result_doc r) = [] \<and> \<not> hasUnsafeFallback (result_tile r)
         else snd (processSingleTile lib svg tile grid s) = None)"
    if "ps = [] \<and> qs = []"
  proof -
    from that t have "a = []" "\<not> b" "\<not> c" by simp_all
    then show ?thesis unfolding run by (simp add: finish_tile_def Let_def)
  qed
  from 1 2 3 show ?thesis by blast
qed

lemma laser_safe_outcome:
  assumes "exportMode s = LaserSafe" "importSVG lib (originalContent svg) = Some imp"
    and "getAllPaths (if expandStrokes s then strokes_expanded lib imp else imp) = paths"
    and "processSingleTile lib svg tile grid s = (tile', Some r)"
  shows "(hasUnsafeFallback (result_tile r) \<longleftrightarrow>
           (\<exists>q \<in> set paths. bounds_intersects lib q (tileRectInSvg svg tile grid) \<and>
              (\<exists>e. intersectPath lib q (tileRectInSvg svg tile grid) = Inl e))) \<and>
         (hasUnsafeFallback tile' \<longleftrightarrow> hasUnsafeFallback (result_tile r)) \<and>
         (\<forall>y. y \<in> set (retained (result_doc r)) \<longleftrightarrow>
           (\<exists>q \<in> set paths. bounds_intersects lib q (tileRectInSvg svg tile grid) \<and>
              ((\<exists>e. intersectPath lib q (tileRectInSvg svg tile grid) = Inl e) \<and> y = q \<or>
               intersectPath lib q (tileRectInSvg svg tile grid) = Inr (Some y) \<and>
               \<not> isEmptyPath y)))"
proof -
  let ?r = "tileRectInSvg svg tile grid"
  obtain a b c where t: "trim_loop lib ?r paths ([], False, False) = (a, b, c)"
    by (cases "trim_loop lib ?r paths ([], False, False)")
  have t': "trim_loop lib ?r
              (getAllPaths (if expandStrokes s then strokes_expanded lib imp else imp))
              ([], False, False) = (a, b, c)"
    unfolding assms(3) by (rule t)
  note run = processSingleTile_laser[OF assms(1,2) t']
  note out = trim_loop_outcome[OF t]
  from assms(4) have r: "retained (result_doc r) = a" "hasUnsafeFallback (result_tile r) = c"
    "hasUnsafeFallback tile' = c"
    unfolding run by (auto simp: finish_tile_def Let_def split: if_splits)
  have f: "c \<longleftrightarrow> (\<exists>q \<in> set paths. bounds_intersects lib q ?r \<and>
               (\<exists>e. intersectPath lib q ?r = Inl e))"
    using out[THEN conjunct1] by simp
  have m: "\<forall>y. y \<in> set a \<longleftrightarrow>
            (\<exists>q \<in> set paths. bounds_intersects lib q ?r \<and>
               ((\<exists>e. intersectPath lib q ?r = Inl e) \<and> y = q \<or>
                intersectPath lib q ?r = Inr (Some y) \<and> \<not> isEmptyPath y))"
    using out[THEN conjunct2] by simp
  show ?thesis unfolding r using f m by simp
qed

text \<open>
  C3, as the code has it. Under the laser-safe mode only a thrown intersection leads to
  the fallback: the \<open>hasUnsafeFallback\<close> flag of an exported tile is set exactly when
  the intersection of some primitive whose bounding box meets the crop window throws,
  and the exported items are exactly the non-empty intersections that were returned and
  the unmodified primitives whose intersection threw. A primitive whose bounding box
  meets the crop window and whose boolean intersection returns nothing, or an empty
  path, without throwing is dropped: the loop state is left as it was, so the tile's
  output and its flag are those of the other primitives alone; when it is the only
  primitive the tile is empty (\<open>isEmpty = true\<close>), omitted unless empty tiles are
  exported, and then exported with no geometry and no fallback flag.
\<close>

theorem empty_intersection_dropped:
  assumes "exportMode s = LaserSafe" "importSVG lib (originalContent svg) = Some imp"
    and "getAllPaths (if expandStrokes s then strokes_expanded lib imp else imp) = paths"
  shows "(\<forall>tile' r. processSingleTile lib svg tile grid s = (tile', Some r) \<longrightarrow>
        (hasUnsafeFallback (result_tile r) \<longleftrightarrow>
           (\<exists>q \<in> set paths. bounds_intersects lib q (tileRectInSvg svg tile grid) \<and>
              (\<exists>e. intersectPath lib q (tileRectInSvg svg tile grid) = Inl e))) \<and>
        (hasUnsafeFallback tile' \<longleftrightarrow> hasUnsafeFallback (result_tile r)) \<and>
        (\<forall>y. y \<in> set (retained (result_doc r)) \<longleftrightarrow>
           (\<exists>q \<in> set paths. bounds_intersects lib q (tileRectInSvg svg tile grid) \<and>
              ((\<exists>e. intersectPath lib q (tileRectInSvg svg tile grid) = Inl e) \<and> y = q \<or>
               intersectPath lib q (tileRectInSvg svg tile grid) = Inr (Some y) \<and>
               \<not> isEmptyPath y)))) \<and>
     (\<forall>ps p qs res.
        paths = ps @ p # qs \<and>
        bounds_intersects lib p (tileRectInSvg svg tile grid) \<and>
        intersectPath lib p (tileRectInSvg svg tile grid) = Inr res \<and>
        (case res of None \<Rightarrow> True | Some x \<Rightarrow> isEmptyPath x) \<longrightarrow>
        trim_step lib (tileRectInSvg svg tile grid) p st = st \<and>
        (\<forall>tile' r. processSingleTile lib svg tile grid s = (tile', Some r) \<longrightarrow>
           retained (result_doc r) =
             fst (trim_loop lib (tileRectInSvg svg tile grid) (ps @ qs) ([], False, False)) \<and>
           hasUnsafeFallback (result_tile r) =
             snd (snd (trim_loop lib (tileRectInSvg svg tile grid) (ps @ qs)
                         ([], False, False))) \<and>
           (hasUnsafeFallback (result_tile r) \<longleftrightarrow>
              (\<exists>q \<in> set (ps @ qs). bounds_intersects lib q (tileRectInSvg svg tile grid) \<and>
                 (\<exists>e. intersectPath lib q (tileRectInSvg svg tile grid) = Inl e))) \<and>
           (hasUnsafeFallback tile' \<longleftrightarrow> hasUnsafeFallback (result_tile r)) \<and>
           (\<forall>y. y \<in> set (retained (result_doc r)) \<longleftrightarrow>
              (\<exists>q \<in> set (ps @ qs). bounds_intersects lib q (tileRectInSvg svg tile grid) \<and>
                 ((\<exists>e. intersectPath lib q (tileRectInSvg svg tile grid) = Inl e) \<and> y = q \<or>
                  intersectPath lib q (tileRectInSvg svg tile grid) = Inr (Some y) \<and>
                  \<not> isEmptyPath y)))) \<and>
        (ps = [] \<and> qs = [] \<longrightarrow>
           isEmpty (fst (processSingleTile lib svg tile grid s)) \<and>
           (if exportEmptyTiles s
            then \<exists>r. snd (processSingleTile lib svg tile grid s) = Some r \<and>
                     retained (result_doc r) = [] \<and> \<not> hasUnsafeFallback (result_tile r)
            else snd (processSingleTile lib svg tile grid s) = None)))"
  apply (rule conjI)
   apply (intro allI impI)
   apply (erule laser_safe_outcome[OF assms])
  apply (intro allI impI)
  apply (elim conjE)
  apply (rule drop_empty_primitive[OF assms(1,2)])
     apply (simp add: assms(3))
    apply assumption+
  done

theorem empty_intersection_dropped_witness:
  "exportMode DEFAULT_SETTINGS = LaserSafe \<and>
   importSVG paper_empty (originalContent sample_svg) = Some (Group [one_path]) \<and>
   getAllPaths (Group [one_path]) = [] @ one_path # [] \<and>
   bounds_intersects paper_empty one_path
     (tileRectInSvg sample_svg (tiles sample_grid ! 0) sample_grid) \<and>
   intersectPath paper_empty one_path
     (tileRectInSvg sample_svg (tiles sample_grid ! 0) sample_grid) = Inr (Some (Path [])) \<and>
   isEmptyPath (Path []) \<and>
   trim_step paper_empty (tileRectInSvg sample_svg (tiles sample_grid ! 0) sample_grid)
     one_path ([], False, False) = ([], False, False) \<and>
   isEmpty (fst (processSingleTile paper_empty sample_svg (tiles sample_grid ! 0) sample_grid
                   DEFAULT_SETTINGS)) \<and>
   snd (processSingleTile paper_empty sample_svg (tiles sample_grid ! 0) sample_grid
          DEFAULT_SETTINGS) = None \<and>
   (\<exists>tile' r. processSingleTile paper_throwing sample_svg (tiles sample_grid ! 0) sample_grid
                 DEFAULT_SETTINGS = (tile', Some r) \<and>
               hasUnsafeFallback (result_tile r) \<and> hasUnsafeFallback tile' \<and>
               set (retained (result_doc r)) = {one_path})"
proof -
  let ?r = "tileRectInSvg sample_svg (tiles sample_grid ! 0) sample_grid"
  let ?t = "tiles sample_grid ! 0"
  have i: "importSVG paper_empty (originalContent sample_svg) = Some (Group [one_path])"
    by (simp add: paper_empty_def)
  have g: "getAllPaths (if expandStrokes DEFAULT_SETTINGS
             then strokes_expanded paper_empty (Group [one_path]) else Group [one_path]) =
           [one_path]"
    by (simp add: one_path_paths default_mode)
  have b: "bounds_intersects paper_empty one_path ?r" by (simp add: paper_empty_def)
  have x: "intersectPath paper_empty one_path ?r = Inr (Some (Path []))"
    by (simp add: intersectPath_def one_path_def paper_empty_def)
  have e: "case Some (Path []) of None \<Rightarrow> True | Some x \<Rightarrow> isEmptyPath x" by simp
  have h: "[one_path] = [] @ one_path # [] \<and> bounds_intersects paper_empty one_path ?r \<and>
           intersectPath paper_empty one_path ?r = Inr (Some (Path [])) \<and>
           (case Some (Path []) of None \<Rightarrow> True | Some x \<Rightarrow> isEmptyPath x)"
    using b x by simp
  from empty_intersection_dropped[OF default_mode(1) i g, of ?t sample_grid "([], False, False)",
         THEN conjunct2, rule_format, OF h]
  have d: "trim_step paper_empty ?r one_path ([], False, False) = ([], False, False)"
    "isEmpty (fst (processSingleTile paper_empty sample_svg ?t sample_grid DEFAULT_SETTINGS))"
    "snd (processSingleTile paper_empty sample_svg ?t sample_grid DEFAULT_SETTINGS) = None"
    by (simp_all add: default_mode)
  have i': "importSVG paper_throwing (originalContent sample_svg) = Some (Group [one_path])"
    by (simp add: paper_throwing_def)
  have g': "getAllPaths (if expandStrokes DEFAULT_SETTINGS
             then strokes_expanded paper_throwing (Group [one_path]) else Group [one_path]) =
           [one_path]"
    by (simp add: one_path_paths default_mode)
  have b': "bounds_intersects paper_throwing one_path ?r" by (simp add: paper_throwing_def)
  have x': "intersectPath paper_throwing one_path ?r = Inl (Error ''boolean operation failed'')"
    by (simp add: intersectPath_def one_path_def paper_throwing_def)
  have st: "trim_step paper_throwing ?r one_path ([], False, False) = ([one_path], True, True)"
    using trim_step_throw[OF b' x', of "[]" False False] by simp
  have tl: "trim_loop paper_throwing ?r (getAllPaths (if expandStrokes DEFAULT_SETTINGS
              then strokes_expanded paper_throwing (Group [one_path]) else Group [one_path]))
              ([], False, False) = ([one_path], True, True)"
    unfolding g' by (simp add: st)
  obtain tile' r where
    p: "processSingleTile paper_throwing sample_svg ?t sample_grid DEFAULT_SETTINGS =
          (tile', Some r)"
    unfolding processSingleTile_laser[OF default_mode(1) i' tl]
    by (simp add: finish_tile_content)
  note o = empty_intersection_dropped[OF default_mode(1) i' g', of ?t sample_grid
             "([], False, False)", THEN conjunct1, rule_format, OF p]
  have f: "hasUnsafeFallback (result_tile r)"
    unfolding o[THEN conjunct1] using b' x' by simp
  have f': "hasUnsafeFallback tile'"
    unfolding o[THEN conjunct2, THEN conjunct1] by (rule f)
  have m: "set (retained (result_doc r)) = {one_path}"
  proof (intro set_eqI)
    fix y
    show "y \<in> set (retained (result_doc r)) \<longleftrightarrow> y \<in> {one_path}"
      unfolding o[THEN conjunct2, THEN conjunct2, rule_format] using b' x' by auto
  qed
  have thr: "\<exists>tile' r. processSingleTile paper_throwing sample_svg ?t sample_grid
                 DEFAULT_SETTINGS = (tile', Some r) \<and>
               hasUnsafeFallback (result_tile r) \<and> hasUnsafeFallback tile' \<and>
               set (retained (result_doc r)) = {one_path}"
    using p f f' m by blast
  from i b x default_mode(1) sample_paths d thr show ?thesis by simp
qed

lemma handleGenerate_cancelled:
  assumes "app_svgInfo app = Some svg" "app_gridInfo app = Some grid"
    "validationErrors app = []"
    and "processTiles lib svg grid (app_settings app) sc = (ts, Inl (Error ''Processing cancelled''))"
  shows "handleGenerate lib sc app =
           app\<lparr> app_gridInfo := Some (grid\<lparr> tiles := ts \<rparr>),
                 processingState :=
                   \<lparr> isProcessing = False, currentTile = 0, totalTiles = 0, phase = Idle,
                     state_error = None \<rparr> \<rparr>"
  using assms by (simp add: handleGenerate_def)

text \<open>
  C5, as the code has it. For a grid of more than two tiles, when the cancellation
  predicate is false at the first poll and true at the second (cancellation requested
  after tile 1 completed), \<open>processTiles\<close> returns no tile result: it ends with the
  error \<open>Processing cancelled\<close>. \<open>handleGenerate\<close> then leaves \<open>processedTiles\<close>
  as they were and ends with \<open>isProcessing = false\<close>, phase \<open>idle\<close> and no error
  message: the cancellation is not presented as an error, and the phase \<open>cancelled\<close>
  that \<open>handleCancel\<close> sets is replaced.
\<close>

theorem cancel_after_first_tile:
  assumes "2 < length (tiles grid)" "\<not> shouldCancel 0" "shouldCancel 1"
  shows "snd (processTiles lib svg grid s shouldCancel) = Inl (Error ''Processing cancelled'') \<and>
     (app_svgInfo app = Some svg \<and> app_gridInfo app = Some grid \<and> app_settings app = s \<and>
      validationErrors app = [] \<longrightarrow>
        processedTiles (handleGenerate lib shouldCancel app) = processedTiles app \<and>
        processingState (handleGenerate lib shouldCancel app) =
          \<lparr> isProcessing = False, currentTile = 0, totalTiles = 0, phase = Idle,
            state_error = None \<rparr>)"
proof -
  have c: "snd (processTiles lib svg grid s shouldCancel) = Inl (Error ''Processing cancelled'')"
    unfolding processTiles_def
    by (rule process_loop_cancelled[of 0 1]) (use assms in simp_all)
  obtain ts where p: "processTiles lib svg grid s shouldCancel =
      (ts, Inl (Error ''Processing cancelled''))"
    using c by (cases "processTiles lib svg grid s shouldCancel") simp
  have "processedTiles (handleGenerate lib shouldCancel app) = processedTiles app \<and>
        processingState (handleGenerate lib shouldCancel app) =
          \<lparr> isProcessing = False, currentTile = 0, totalTiles = 0, phase = Idle,
            state_error = None \<rparr>"
    if "app_svgInfo app = Some svg \<and> app_gridInfo app = Some grid \<and> app_settings app = s \<and>
      validationErrors app = []"
  proof -
    from that p have "processTiles lib svg grid (app_settings app) shouldCancel =
      (ts, Inl (Error ''Processing cancelled''))" by simp
    from handleGenerate_cancelled[OF _ _ _ this] that show ?thesis by simp
  qed
  with c show ?thesis by blast
qed

theorem cancel_after_first_tile_witness:
  "2 < length (tiles sample_grid) \<and> \<not> cancel_after_first 0 \<and> cancel_after_first 1 \<and>
   snd (processTiles paper_exact sample_svg sample_grid DEFAULT_SETTINGS cancel_after_first) =
     Inl (Error ''Processing cancelled'') \<and>
   processedTiles (handleGenerate paper_exact cancel_after_first sample_app) = [] \<and>
   state_error (processingState (handleGenerate paper_exact cancel_after_first sample_app)) = None \<and>
   phase (processingState (handleGenerate paper_exact cancel_after_first sample_app)) = Idle"
proof -
  have n: "2 < length (tiles sample_grid)" by (simp add: sample_tiles)
  have a: "app_svgInfo sample_app = Some sample_svg \<and> app_gridInfo sample_app = Some sample_grid \<and>
           app_settings sample_app = DEFAULT_SETTINGS \<and> validationErrors sample_app = []"
    by (simp add: sample_app_def)
  have p: "processedTiles sample_app = []" by (simp add: sample_app_def)
  have c: "\<not> cancel_after_first 0" "cancel_after_first 1"
    by (simp_all add: cancel_after_first_def)
  from cancel_after_first_tile[OF n c, of paper_exact sample_svg DEFAULT_SETTINGS sample_app]
    n a p c
  show ?thesis by simp
qed

text \<open>
  C5 states that the run ends in a \<open>cancelled\<close> state. On a grid of three tiles,
  cancelled after the first tile, the action ends in phase \<open>idle\<close>, also when
  \<open>handleCancel\<close> has set the phase to \<open>cancelled\<close> before.
\<close>

theorem cancelled_phase_counterexample:
  "2 < length (tiles sample_grid) \<and>
   \<not> cancel_after_first 0 \<and> cancel_after_first 1 \<and>
   phase (processingState (handleGenerate paper_exact cancel_after_first sample_app)) = Idle \<and>
   phase (processingState (handleGenerate paper_exact cancel_after_first (handleCancel sample_app))) = Idle \<and>
   phase (processingState (handleGenerate paper_exact cancel_after_first sample_app)) \<noteq> Cancelled"
proof -
  have n: "2 < length (tiles sample_grid)" by (simp add: sample_tiles)
  have c: "snd (processTiles paper_exact sample_svg sample_grid DEFAULT_SETTINGS cancel_after_first) =
             Inl (Error ''Processing cancelled'')"
    unfolding processTiles_def
    by (rule process_loop_cancelled[of 0 1]) (use n in \<open>simp_all add: cancel_after_first_def\<close>)
  then obtain ts where p: "processTiles paper_exact sample_svg sample_grid DEFAULT_SETTINGS
      cancel_after_first = (ts, Inl (Error ''Processing cancelled''))"
    by (cases "processTiles paper_exact sample_svg sample_grid DEFAULT_SETTINGS cancel_after_first") simp
  have 1: "phase (processingState (handleGenerate paper_exact cancel_after_first sample_app)) = Idle"
    by (subst handleGenerate_cancelled[where svg = sample_svg and grid = sample_grid and ts = ts])
       (simp_all add: sample_app_def p)
  have 2: "phase (processingState (handleGenerate paper_exact cancel_after_first
             (handleCancel sample_app))) = Idle"
    by (subst handleGenerate_cancelled[where svg = sample_svg and grid = sample_grid and ts = ts])
       (simp_all add: sample_app_def handleCancel_def p)
  from n 1 2 show ?thesis by (simp add: cancel_after_first_def)
qed

end
